theory Spec2Isabelle
  imports Complex_Main
begin

section \<open>The GIF model of GIF.py\<close>

text \<open>
  A shallow embedding of the class \<open>GIF\<close> of \<open>src/GIF.py\<close>: the two simulation
  engines (\<open>simulate\<close>, \<open>simulateDeterministic_forceSpikes\<close>) and the parts of the
  fitting pipeline (\<open>fitVoltageReset\<close>, \<open>fitSubthresholdDynamics\<close>,
  \<open>maximizeLikelihood\<close>) that decide sample indices, array bounds, raised errors and
  parameter updates.

  Numbers: the source computes in IEEE floating point (Python and numpy doubles, C
  \<open>float\<close> inside the inlined loops). Values, such as voltages, currents and
  likelihoods, are computed over the reals here, so the embedding says nothing about
  their rounding error, overflow to infinity or NaN. What it keeps exact is everything
  that is decided by integers and by control flow: sample indices, array lengths, which
  element is written and read, and which statement raises. A quotient of floats that is
  truncated to an index is therefore rounded as the source rounds it, in single or in
  double precision (see \<open>fl\<close> below), and the \<open>int\<close> variables of the C loops
  have 32 bits.
\<close>

subsection \<open>Errors and faults\<close>

text \<open>
  Python-level exceptions of the source and the faults of the inlined C loops.
  \<open>OutsideModel\<close> is not an exception of the source: it marks the inputs the
  embedding does not cover (a time step that is not positive, a negative refractory
  period, a negative spike time).
\<close>

datatype error =
    IndexError
  | ZeroDivisionError
  | ValueError
  | NameError
  | LinAlgError
  | OOBWrite string int
  | OOBRead string nat
  | OutsideModel

subsection \<open>Model parameters\<close>

text \<open>
  The external class \<open>Filter\<close> is known to the model only through its coefficient
  vector (\<open>setFilter_Coefficients\<close>, \<open>getCoefficients\<close>) and through the samples that
  \<open>getInterpolatedFilter(dt)\<close> returns; the latter are an input of the simulation
  functions below.
\<close>

record filter =
  filter_coefficients :: "real list"

record GIF =
  dt :: real
  gl :: real
  C :: real
  El :: real
  Vr :: real
  Tref :: real
  Vt_star :: real
  DV :: real
  lambda0 :: real
  eta :: filter
  gamma :: filter
  avg_spike_shape :: "real list"
  avg_spike_shape_support :: "real list"

text \<open>
  \<open>__init__(dt)\<close>. The coefficients that the two filters get from
  \<open>setFilter_Function\<close> are computed by the external class and are arguments here;
  \<open>avg_spike_shape\<close> and its support start as the number 0, here the empty list.
\<close>

definition GIF_init :: "real \<Rightarrow> real list \<Rightarrow> real list \<Rightarrow> GIF" where
  "GIF_init d eta_coefficients gamma_coefficients =
     \<lparr>dt = d, gl = 1 / 100, C = 20 * (1 / 100), El = - 65, Vr = - 50, Tref = 4,
      Vt_star = - 48, DV = 1 / 2, lambda0 = 1,
      eta = \<lparr>filter_coefficients = eta_coefficients\<rparr>,
      gamma = \<lparr>filter_coefficients = gamma_coefficients\<rparr>,
      avg_spike_shape = [], avg_spike_shape_support = []\<rparr>"

text \<open>\<open>int(x)\<close> of Python and of C: truncation toward zero.\<close>

definition py_int :: "real \<Rightarrow> int" where
  "py_int x = (if 0 \<le> x then \<lfloor>x\<rfloor> else \<lceil>x\<rceil>)"

subsection \<open>Floating-point quotients that become indices\<close>

text \<open>
  \<open>ilog2 n\<close> is the position of the leading bit of \<open>n\<close>, and \<open>binade x\<close> the
  exponent \<open>e\<close> with \<open>2^e \<le> |x| < 2^(e+1)\<close> of a number other than 0.
\<close>

fun ilog2 :: "nat \<Rightarrow> nat" where
  "ilog2 n = (if n < 2 then 0 else Suc (ilog2 (n div 2)))"

declare ilog2.simps [simp del]

definition binade :: "real \<Rightarrow> int" where
  "binade x =
     (if 1 \<le> \<bar>x\<bar> then int (ilog2 (nat \<lfloor>\<bar>x\<bar>\<rfloor>))
      else - int (Suc (ilog2 (nat \<lceil>1 / \<bar>x\<bar>\<rceil> - 1))))"

definition pow2 :: "int \<Rightarrow> real" where
  "pow2 e = (if 0 \<le> e then 2 ^ nat e else 1 / 2 ^ nat (- e))"

text \<open>Rounding to the nearest integer, a tie to the even one.\<close>

definition round_even :: "real \<Rightarrow> int" where
  "round_even x =
     (let f = \<lfloor>x\<rfloor>; r = x - of_int f in
      if r < 1 / 2 then f else if 1 / 2 < r then f + 1 else if even f then f else f + 1)"

text \<open>
  \<open>fl p x\<close>: the binary floating-point number with \<open>p\<close> significant bits that is
  nearest to \<open>x\<close>, ties to even, which is the IEEE default rounding. \<open>p = 53\<close> is a
  Python float and a C \<open>double\<close>, \<open>p = 24\<close> a C \<open>float\<close>. The range of the
  exponent is not bounded: there is no overflow and no underflow here.
\<close>

definition fl :: "nat \<Rightarrow> real \<Rightarrow> real" where
  "fl p x =
     (if x = 0 then 0
      else let u = pow2 (binade x - (int p - 1)) in of_int (round_even (x / u)) * u)"

text \<open>
  The fields \<open>Tref\<close> and \<open>dt\<close> hold Python floats: a real number that is no double
  stands for the double nearest to it. The inlined C loops of both engines compute
  \<open>int Tref_ind = int(float(p_Tref)/dt)\<close> with \<open>float dt = float(p_dt)\<close>: both
  operands are cast to single precision, the quotient is a \<open>float\<close>, and it is
  truncated. (A quotient of \<open>2^31\<close> or more has no \<open>int\<close> value in C; the embedding
  keeps the integer.)
\<close>

definition Tref_ind :: "GIF \<Rightarrow> int" where
  "Tref_ind m = py_int (fl 24 (fl 24 (fl 53 (Tref m)) / fl 24 (fl 53 (dt m))))"

text \<open>
  \<open>p_Tref_i = int(self.Tref/self.dt)\<close> of \<open>simulateDeterministic_forceSpikes\<close>: a
  quotient of Python floats, in double precision.
\<close>

definition p_Tref_i :: "GIF \<Rightarrow> int" where
  "p_Tref_i m = py_int (fl 53 (fl 53 (Tref m) / fl 53 (dt m)))"

text \<open>
  The value that an \<open>int\<close> of 32 bits takes from an integer expression of another
  width: the residue modulo \<open>2^32\<close> in the range from \<open>-2^31\<close>.
\<close>

definition c_int :: "int \<Rightarrow> int" where
  "c_int x = (x + 2147483648) mod 4294967296 - 2147483648"

text \<open>
  Modelled from the spec: \<open>Tools.timeToIndex\<close>, which is not part of the source given.
  The spec says that spike times become sample indices by round-to-nearest against
  \<open>dt\<close>; a tie is rounded up here.
\<close>

definition timeToIndex :: "real list \<Rightarrow> real \<Rightarrow> int list" where
  "timeToIndex x_t d = map (\<lambda>s. round (s / d)) x_t"

subsection \<open>Parameter recovery in fitSubthresholdDynamics\<close>

text \<open>
  The four assignments that follow the linear regression, on the flattened coefficient
  vector \<open>b\<close>. Each field is read from \<open>self\<close> after the previous assignment, as in
  the source; \<open>b[1]\<close> and \<open>b[2]\<close> raise on a vector that is too short.
\<close>

definition extract_parameters :: "GIF \<Rightarrow> real list \<Rightarrow> error + GIF" where
  "extract_parameters m b =
     (if length b < 2 then Inl IndexError
      else let m1 = m\<lparr>C := 1 / (b ! 1)\<rparr>;
               m2 = m1\<lparr>gl := - (b ! 0) * C m1\<rparr>
           in if length b < 3 then Inl IndexError
              else let m3 = m2\<lparr>El := (b ! 2) * C m2 / gl m2\<rparr>
                   in Inr (m3\<lparr>eta := (eta m3)\<lparr>filter_coefficients :=
                                 map (\<lambda>x. - x * C m3) (drop 3 b)\<rparr>\<rparr>))"

subsection \<open>Checked array access\<close>

text \<open>
  The inlined C loops index raw buffers. Every read and write of the embedding is
  checked against the length of the array; an access outside it is the fault
  \<open>OOBRead\<close> or \<open>OOBWrite\<close>, carrying the name of the array and the index.
\<close>

definition rd :: "string \<Rightarrow> 'a list \<Rightarrow> nat \<Rightarrow> error + 'a" where
  "rd a xs i = (if i < length xs then Inr (xs ! i) else Inl (OOBRead a i))"

definition wr :: "string \<Rightarrow> 'a list \<Rightarrow> nat \<Rightarrow> 'a \<Rightarrow> error + 'a list" where
  "wr a xs i v = (if i < length xs then Inr (xs[i := v]) else Inl (OOBWrite a (int i)))"

definition bind_err :: "error + 'a \<Rightarrow> ('a \<Rightarrow> error + 'b) \<Rightarrow> error + 'b" where
  "bind_err r f = (case r of Inl e \<Rightarrow> Inl e | Inr x \<Rightarrow> f x)"

text \<open>
  The voltage update shared by both engines:
  \<open>V[t+1] = V[t] + dt/C*( -gl*(V[t] - El) + I[t] - eta_sum[t] )\<close>.
\<close>

definition euler :: "GIF \<Rightarrow> real \<Rightarrow> real \<Rightarrow> real \<Rightarrow> real" where
  "euler m v i e = v + dt m / C m * (- gl m * (v - El m) + i - e)"

definition integrate_voltage ::
  "GIF \<Rightarrow> real list \<Rightarrow> real list \<Rightarrow> real list \<Rightarrow> nat \<Rightarrow> error + real list" where
  "integrate_voltage m I eta_sum V t =
     bind_err (rd ''V'' V t) (\<lambda>v.
     bind_err (rd ''I'' I t) (\<lambda>i.
     bind_err (rd ''eta_sum'' eta_sum t) (\<lambda>e.
     wr ''V'' V (t + 1) (euler m v i e))))"

subsection \<open>simulate: the stochastic engine\<close>

text \<open>
  \<open>for(int j=0; j<l; j++) arr[t+1+j] += ker[j];\<close> starting at index \<open>i\<close>.
\<close>

fun superpose :: "string \<Rightarrow> real list \<Rightarrow> nat \<Rightarrow> real list \<Rightarrow> error + real list" where
  "superpose a arr i [] = Inr arr"
| "superpose a arr i (x # ker) =
     (if i < length arr then superpose a (arr[i := arr ! i + x]) (Suc i) ker
      else Inl (OOBWrite a (int i)))"

record sim_arrays =
  sim_V :: "real list"
  sim_spks :: "real list"
  sim_eta_sum :: "real list"
  sim_gamma_sum :: "real list"

text \<open>
  One pass through the body of the C loop at loop variable \<open>t\<close>, with \<open>r\<close> the value
  of \<open>rand()/rand_max\<close> drawn in this pass. It returns the number of samples the
  refractory period skips (\<open>t = t + Tref_ind\<close>; none without a spike) and the arrays.
\<close>

definition simulate_body ::
  "GIF \<Rightarrow> nat \<Rightarrow> real list \<Rightarrow> real list \<Rightarrow> nat \<Rightarrow> real list \<Rightarrow> real \<Rightarrow> nat \<Rightarrow> sim_arrays
     \<Rightarrow> error + nat \<times> sim_arrays" where
  "simulate_body m Tref_i p_eta p_gamma T_ind I r t s =
     bind_err (integrate_voltage m I (sim_eta_sum s) (sim_V s) t) (\<lambda>V1.
     bind_err (rd ''V'' V1 (t + 1)) (\<lambda>v1.
     bind_err (rd ''gamma_sum'' (sim_gamma_sum s) t) (\<lambda>g.
       let lambda = lambda0 m * exp ((v1 - Vt_star m - g) / DV m);
           p_dontspike = exp (- lambda * (dt m / 1000))
       in if r > p_dontspike then
            bind_err (if t + 1 < T_ind - 1 then wr ''spks'' (sim_spks s) (t + 1) 1
                      else Inr (sim_spks s)) (\<lambda>spks1.
              let t1 = t + Tref_i in
              bind_err (if t1 + 1 < T_ind - 1 then wr ''V'' V1 (t1 + 1) (Vr m)
                        else Inr V1) (\<lambda>V2.
              bind_err (superpose ''eta_sum'' (sim_eta_sum s) (t1 + 1) p_eta) (\<lambda>es.
              bind_err (superpose ''gamma_sum'' (sim_gamma_sum s) (t1 + 1) p_gamma) (\<lambda>gs.
                Inr (Tref_i, \<lparr>sim_V = V2, sim_spks = spks1,
                               sim_eta_sum = es, sim_gamma_sum = gs\<rparr>)))))
          else Inr (0, s\<lparr>sim_V := V1\<rparr>))))"

text \<open>
  \<open>for (int t=0; t<T_ind-1; t++)\<close>. The random generator is the process-wide
  \<open>rand()\<close>: \<open>rnd k\<close> is the value of the \<open>k\<close>-th draw of the call, and \<open>k\<close>
  counts the draws made so far.
\<close>

function simulate_loop ::
  "GIF \<Rightarrow> nat \<Rightarrow> real list \<Rightarrow> real list \<Rightarrow> nat \<Rightarrow> real list \<Rightarrow> (nat \<Rightarrow> real)
     \<Rightarrow> nat \<Rightarrow> nat \<Rightarrow> sim_arrays \<Rightarrow> error + sim_arrays" where
  "simulate_loop m Tref_i p_eta p_gamma T_ind I rnd k t s =
     (if t < T_ind - 1 then
        (case simulate_body m Tref_i p_eta p_gamma T_ind I (rnd k) t s of
           Inl e \<Rightarrow> Inl e
         | Inr (skip, s') \<Rightarrow>
             simulate_loop m Tref_i p_eta p_gamma T_ind I rnd (Suc k) (t + skip + 1) s')
      else Inr s)"
  by pat_completeness auto
termination
  by (relation "measure (\<lambda>(m, Tref_i, p_eta, p_gamma, T_ind, I, rnd, k, t, s). T_ind - t)") auto

declare simulate_loop.simps [simp del]

record sim_result =
  res_time :: "real list"
  res_V :: "real list"
  res_eta_sum :: "real list"
  res_V_T :: "real list"
  res_spks :: "real list"

text \<open>\<open>np.where(spks==1)[0]\<close>: the indices at which the array holds 1.\<close>

definition where_is_one :: "real list \<Rightarrow> nat list" where
  "where_is_one xs = filter (\<lambda>i. xs ! i = 1) [0..<length xs]"

text \<open>
  \<open>simulate(I, V0)\<close>. \<open>p_eta\<close> and \<open>p_gamma\<close> are the samples returned by
  \<open>self.eta.getInterpolatedFilter(self.dt)\<close> and its twin for \<open>gamma\<close>.
  \<open>V[0] = V0\<close> is a numpy assignment and raises on an array of length 0.
\<close>

definition simulate ::
  "GIF \<Rightarrow> real list \<Rightarrow> real list \<Rightarrow> (nat \<Rightarrow> real) \<Rightarrow> real list \<Rightarrow> real \<Rightarrow> error + sim_result" where
  "simulate m p_eta p_gamma rnd I V0 =
     (let p_T = length I;
          V = replicate p_T 0;
          spks = replicate p_T 0;
          eta_sum = replicate (p_T + 2 * length p_eta) 0;
          gamma_sum = replicate (p_T + 2 * length p_gamma) 0
      in if p_T = 0 then Inl IndexError
         else if dt m \<le> 0 \<or> Tref m < 0 then Inl OutsideModel
         else
           bind_err (simulate_loop m (nat (Tref_ind m)) p_eta p_gamma p_T I rnd 0 0
                       \<lparr>sim_V = V[0 := V0], sim_spks = spks,
                        sim_eta_sum = eta_sum, sim_gamma_sum = gamma_sum\<rparr>) (\<lambda>s.
             Inr \<lparr>res_time = map (\<lambda>i. real i * dt m) [0..<p_T],
                  res_V = sim_V s,
                  res_eta_sum = take p_T (sim_eta_sum s),
                  res_V_T = map (\<lambda>x. x + Vt_star m) (take p_T (sim_gamma_sum s)),
                  res_spks = map (\<lambda>i. real i * dt m) (where_is_one (sim_spks s))\<rparr>))"

subsection \<open>simulateDeterministic_forceSpikes: the forced-spike engine\<close>

text \<open>
  \<open>eta_sum[a : a + len(p_eta)] += p_eta\<close> of numpy: the slice is clipped to the array,
  and an operand of another length than the slice is broadcast only when it has
  length 1; otherwise numpy raises ValueError.
\<close>

definition slice_add :: "real list \<Rightarrow> nat \<Rightarrow> real list \<Rightarrow> error + real list" where
  "slice_add arr a ker =
     (let lo = min a (length arr);
          hi = min (a + length ker) (length arr);
          n = hi - lo
      in if n = length ker then
           Inr (take lo arr @ map2 (+) (take n (drop lo arr)) ker @ drop hi arr)
         else if length ker = 1 then
           Inr (take lo arr @ map (\<lambda>x. x + ker ! 0) (take n (drop lo arr)) @ drop hi arr)
         else Inl ValueError)"

text \<open>
  \<open>for s in spks_i : eta_sum[s + 1 + p_Tref_i : s + 1 + p_Tref_i + p_eta_l] += p_eta\<close>,
  for indices that are not negative.
\<close>

fun add_eta_at_spikes :: "real list \<Rightarrow> nat \<Rightarrow> real list \<Rightarrow> int list \<Rightarrow> error + real list" where
  "add_eta_at_spikes arr Tref_i p_eta [] = Inr arr"
| "add_eta_at_spikes arr Tref_i p_eta (s # ss) =
     bind_err (slice_add arr (nat s + 1 + Tref_i) p_eta) (\<lambda>arr'.
       add_eta_at_spikes arr' Tref_i p_eta ss)"

text \<open>
  The array \<open>np.zeros(p_T + 1.1*p_eta_l + p_Tref_i)\<close> (numpy truncates the size),
  filled at the spikes and cut to \<open>[:p_T]\<close>.
\<close>

definition forced_eta_sum :: "nat \<Rightarrow> nat \<Rightarrow> real list \<Rightarrow> int list \<Rightarrow> error + real list" where
  "forced_eta_sum p_T Tref_i p_eta spks_i =
     bind_err (add_eta_at_spikes
                 (replicate (nat (py_int (real p_T + 1.1 * real (length p_eta) + real Tref_i))) 0)
                 Tref_i p_eta spks_i) (\<lambda>arr.
       Inr (take p_T arr))"

text \<open>
  The C loop reads \<open>spks_i[spks_cnt]\<close> without a test against the length of
  \<open>spks_i\<close>. C gives a read behind the array no meaning; what a run does is read the
  words that lie there. These words are the parameter \<open>beyond\<close>: \<open>mem\<close> below is
  \<open>spks_i @ beyond\<close>, a read at an index from \<open>n = length spks_i\<close> on returns the word
  found and is recorded in the list \<open>oob\<close>, and a read behind \<open>mem\<close> is the fault
  \<open>OOBRead\<close>. With \<open>beyond = []\<close> every read outside \<open>spks_i\<close> is a fault.

  \<open>next_spike\<close> is an \<open>int\<close>, and \<open>next_spike = spks_i[spks_cnt] + Tref_ind\<close> keeps
  32 bits of the sum of an array word and the offset. So are the loop variable \<open>t\<close> and
  \<open>T_ind = int(p_T)\<close>, which are natural numbers here: that is exact for an input of
  fewer than \<open>2^31\<close> samples. A longer input has no length that fits \<open>T_ind\<close>; for it
  the embedding counts in unbounded integers throughout, \<open>next_spike\<close> included.
\<close>

definition next_spike_value :: "nat \<Rightarrow> int \<Rightarrow> int" where
  "next_spike_value T_ind x = (if T_ind < 2147483648 then c_int x else x)"

text \<open>
  The state of the loop: the loop variable \<open>t\<close>, \<open>next_spike\<close>, \<open>spks_cnt\<close>, the
  array \<open>V\<close>. On a forced spike the body ends with \<open>t=t-1\<close> and the loop header
  adds 1 again, so the next pass has the same \<open>t\<close>.
\<close>

function forceSpikes_loop ::
  "GIF \<Rightarrow> nat \<Rightarrow> nat \<Rightarrow> real list \<Rightarrow> real list \<Rightarrow> int list \<Rightarrow> nat
     \<Rightarrow> nat \<Rightarrow> int \<Rightarrow> nat \<Rightarrow> real list \<Rightarrow> nat list \<Rightarrow> error + real list \<times> nat list" where
  "forceSpikes_loop m Tref_i T_ind I eta_sum mem n t next_spike spks_cnt V oob =
     (if t < T_ind - 1 then
        (case integrate_voltage m I eta_sum V t of
           Inl e \<Rightarrow> Inl e
         | Inr V1 \<Rightarrow>
             if int t = next_spike then
               (if spks_cnt + 1 < length mem then
                  (case (if t = 0 then Inl (OOBWrite ''V'' (- 1)) else wr ''V'' V1 (t - 1) 0) of
                     Inl e \<Rightarrow> Inl e
                   | Inr V2 \<Rightarrow>
                       (case wr ''V'' V2 t (Vr m) of
                          Inl e \<Rightarrow> Inl e
                        | Inr V3 \<Rightarrow>
                            forceSpikes_loop m Tref_i T_ind I eta_sum mem n t
                              (next_spike_value T_ind (mem ! (spks_cnt + 1) + int Tref_i))
                              (spks_cnt + 1) V3
                              (if n \<le> spks_cnt + 1 then oob @ [spks_cnt + 1] else oob)))
                else Inl (OOBRead ''spks_i'' (spks_cnt + 1)))
             else forceSpikes_loop m Tref_i T_ind I eta_sum mem n (t + 1) next_spike spks_cnt V1 oob)
      else Inr (V, oob))"
  by pat_completeness auto
termination
  by (relation "measure (\<lambda>(m, Tref_i, T_ind, I, eta_sum, mem, n, t, next_spike, spks_cnt, V, oob).
                  (T_ind - t) + (length mem - spks_cnt))") auto

declare forceSpikes_loop.simps [simp del]

record forced_result =
  ret_time :: "real list"
  ret_V :: "real list"
  ret_eta_sum :: "real list"
  oob_reads :: "nat list"

text \<open>
  \<open>simulateDeterministic_forceSpikes(I, V0, spks)\<close>. \<open>p_eta\<close> is the result of
  \<open>self.eta.getInterpolatedFilter(self.dt)\<close>. \<open>int(self.Tref/self.dt)\<close> divides two
  Python floats and raises for \<open>dt = 0\<close>. There are two refractory offsets: the kernels
  are laid into \<open>eta_sum\<close> with the Python value \<open>p_Tref_i\<close>, and the C loop
  schedules the resets with its own \<open>Tref_ind\<close>. The field \<open>oob_reads\<close> is not
  returned by the source: it lists the indices at which the C loop has read behind
  \<open>spks_i\<close>.
\<close>

definition simulateDeterministic_forceSpikes ::
  "GIF \<Rightarrow> real list \<Rightarrow> int list \<Rightarrow> real list \<Rightarrow> real \<Rightarrow> real list \<Rightarrow> error + forced_result" where
  "simulateDeterministic_forceSpikes m p_eta beyond I V0 spks =
     (let p_T = length I in
      if dt m = 0 then Inl ZeroDivisionError
      else if dt m < 0 \<or> Tref m < 0 \<or> (\<exists>s \<in> set spks. s < 0) then Inl OutsideModel
      else
        let V = replicate p_T 0;
            spks_i = timeToIndex spks (dt m);
            mem = spks_i @ beyond
        in bind_err (forced_eta_sum p_T (nat (p_Tref_i m)) p_eta spks_i) (\<lambda>eta_sum.
             if p_T = 0 then Inl IndexError
             else if mem = [] then Inl (OOBRead ''spks_i'' 0)
             else
               bind_err (forceSpikes_loop m (nat (Tref_ind m)) p_T I eta_sum mem (length spks_i)
                           0 (next_spike_value p_T (mem ! 0 + int (nat (Tref_ind m)))) 0
                           (V[0 := V0])
                           (if spks_i = [] then [0] else [])) (\<lambda>(V', oob).
                 Inr \<lparr>ret_time = map (\<lambda>i. real i * dt m) [0..<p_T],
                      ret_V = V',
                      ret_eta_sum = eta_sum,
                      oob_reads = oob\<rparr>)))"

text \<open>The voltage that a call has returned at sample \<open>i\<close>, if it has returned one.\<close>

definition V_at :: "error + forced_result \<Rightarrow> nat \<Rightarrow> real option" where
  "V_at r i =
     (case r of
        Inl e \<Rightarrow> None
      | Inr res \<Rightarrow> if i < length (ret_V res) then Some (ret_V res ! i) else None)"

subsection \<open>fitVoltageReset\<close>

text \<open>
  The external classes \<open>Trace\<close> and \<open>Experiment\<close>, as far as the fitting functions
  read them. \<open>averageSpikeShape\<close> is the triple \<open>(support, spike_average, spike_nb)\<close>
  that \<open>tr.computeAverageSpikeShape()\<close> returns.
\<close>

record Trace =
  useTrace :: bool
  spks :: "int list"
  averageSpikeShape :: "real list \<times> real list \<times> nat"

record Experiment =
  experiment_dt :: real
  trainingset_traces :: "Trace list"

text \<open>
  The loop over the training set: \<open>support\<close> is unbound (\<open>None\<close>) until a trace
  contributes, and is overwritten by every trace that does.
\<close>

fun collect_spike_shapes ::
  "Trace list \<Rightarrow> real list option \<times> real list list \<times> nat
     \<Rightarrow> real list option \<times> real list list \<times> nat" where
  "collect_spike_shapes [] acc = acc"
| "collect_spike_shapes (tr # trs) (support, all_spike_average, all_spike_nb) =
     (if useTrace tr \<and> length (spks tr) > 0 then
        (case averageSpikeShape tr of (support', spike_average, spike_nb) \<Rightarrow>
           collect_spike_shapes trs
             (Some support', all_spike_average @ [spike_average], all_spike_nb + spike_nb))
      else collect_spike_shapes trs (support, all_spike_average, all_spike_nb))"

text \<open>The traces that contribute to the average: used, and with at least one spike.\<close>

definition contributing :: "Trace list \<Rightarrow> Trace list" where
  "contributing trs = filter (\<lambda>tr. useTrace tr \<and> length (spks tr) > 0) trs"

text \<open>
  \<open>np.mean(rows, axis=0)\<close>: the mean of each column. Rows of different lengths do
  not form an array (ValueError); for no row at all numpy returns NaN, which the
  source never reads because the next statement raises.
\<close>

definition mean_axis0 :: "real list list \<Rightarrow> error + real list" where
  "mean_axis0 rows =
     (case rows of
        [] \<Rightarrow> Inr []
      | r # rs \<Rightarrow>
          if \<forall>r' \<in> set rs. length r' = length r then
            Inr (map (\<lambda>j. sum_list (map (\<lambda>row. row ! j) rows) / real (length rows))
                   [0..<length r])
          else Inl ValueError)"

text \<open>\<open>np.where(support >= x)[0][0]\<close>: the first index whose entry is at least \<open>x\<close>.\<close>

definition first_index_ge :: "real list \<Rightarrow> real \<Rightarrow> error + nat" where
  "first_index_ge support x =
     (case filter (\<lambda>j. support ! j \<ge> x) [0..<length support] of
        [] \<Rightarrow> Inl IndexError
      | j # _ \<Rightarrow> Inr j)"

definition fitVoltageReset :: "GIF \<Rightarrow> Experiment \<Rightarrow> real \<Rightarrow> error + GIF" where
  "fitVoltageReset m e Tref' =
     (let m1 = m\<lparr>dt := experiment_dt e, Tref := Tref'\<rparr> in
      case collect_spike_shapes (trainingset_traces e) (None, [], 0) of
        (support, all_spike_average, all_spike_nb) \<Rightarrow>
          bind_err (mean_axis0 all_spike_average) (\<lambda>spike_average.
            case support of
              None \<Rightarrow> Inl NameError
            | Some support' \<Rightarrow>
                bind_err (first_index_ge support' (Tref m1)) (\<lambda>Tref_ind.
                bind_err (if Tref_ind < length spike_average
                          then Inr (spike_average ! Tref_ind) else Inl IndexError) (\<lambda>v.
                  Inr (m1\<lparr>Vr := v, avg_spike_shape := spike_average,
                           avg_spike_shape_support := support'\<rparr>)))))"

subsection \<open>fitSubthresholdDynamics_Build_Xmatrix_Yvector\<close>

text \<open>\<open>np.diff(V)\<close> and numpy's indexing of an array by an array of indices.\<close>

definition np_diff :: "real list \<Rightarrow> real list" where
  "np_diff V = map (\<lambda>i. V ! (i + 1) - V ! i) [0..<length V - 1]"

definition take_indices :: "'a list \<Rightarrow> nat list \<Rightarrow> error + 'a list" where
  "take_indices xs sel =
     (if \<forall>i \<in> set sel. i < length xs then Inr (map (\<lambda>i. xs ! i) sel) else Inl IndexError)"

text \<open>
  The vector \<open>Y\<close> of the function:
  \<open>np.concatenate( (np.diff(trace.V)/trace.dt, [0]) )[selection]\<close>, where \<open>selection\<close>
  is what \<open>trace.getROI_FarFromSpikes\<close> has returned.
\<close>

definition Build_Yvector :: "real list \<Rightarrow> real \<Rightarrow> nat list \<Rightarrow> error + real list" where
  "Build_Yvector V trace_dt selection =
     take_indices (map (\<lambda>d. d / trace_dt) (np_diff V) @ [0]) selection"

text \<open>
  The function on a trace with voltage \<open>V\<close>, current \<open>I\<close> and time step
  \<open>trace_dt\<close>. \<open>selection\<close> and \<open>X_eta\<close> come from the external classes
  (\<open>trace.getROI_FarFromSpikes\<close>, \<open>eta.convolution_Spiketrain_basisfunctions\<close>).
  A row of \<open>X\<close> is \<open>V[t], I[t], 1\<close> followed by the row \<open>t\<close> of \<open>X_eta\<close>.
\<close>

definition fitSubthresholdDynamics_Build_Xmatrix_Yvector ::
  "real list \<Rightarrow> real list \<Rightarrow> real \<Rightarrow> real list list \<Rightarrow> nat list
     \<Rightarrow> error + real list list \<times> real list" where
  "fitSubthresholdDynamics_Build_Xmatrix_Yvector V I trace_dt X_eta selection =
     bind_err (take_indices V selection) (\<lambda>X0.
     bind_err (take_indices I selection) (\<lambda>X1.
     bind_err (take_indices X_eta selection) (\<lambda>X_eta_sel.
     bind_err (Build_Yvector V trace_dt selection) (\<lambda>Y.
       Inr (map (\<lambda>(v, i, e). [v, i, 1] @ e) (zip X0 (zip X1 X_eta_sel)), Y)))))"

text \<open>
  Spec wording, for comparison: the target is \<open>(V[t+1]-V[t])/dt\<close> at the selected
  samples, with the final sample of the trace dropped.
\<close>

definition Yvector_final_dropped :: "real list \<Rightarrow> real \<Rightarrow> nat list \<Rightarrow> real list" where
  "Yvector_final_dropped V trace_dt selection =
     map (\<lambda>t. (V ! (t + 1) - V ! t) / trace_dt) (filter (\<lambda>t. t + 1 < length V) selection)"

subsection \<open>maximizeLikelihood\<close>

text \<open>
  Vectors are lists, matrices are lists of rows; a matrix without rows stands for the
  numpy array of shape \<open>(0, p)\<close> with the \<open>p\<close> that the operation needs.
\<close>

definition dot :: "real list \<Rightarrow> real list \<Rightarrow> real" where
  "dot x y = sum_list (map2 (*) x y)"

definition mat_vec :: "real list list \<Rightarrow> real list \<Rightarrow> real list" where
  "mat_vec X v = map (\<lambda>row. dot row v) X"

text \<open>
  \<open>np.dot(X, v)\<close> of a matrix and a vector: numpy raises ValueError (shapes not
  aligned) unless every row is as long as the vector.
\<close>

definition np_dot :: "real list list \<Rightarrow> real list \<Rightarrow> error + real list" where
  "np_dot X v =
     (if list_all (\<lambda>row. length row = length v) X then Inr (mat_vec X v) else Inl ValueError)"

text \<open>
  \<open>x - y\<close> of two vectors, with numpy's broadcasting: a vector of length 1 is
  stretched to the other, two other lengths that differ raise ValueError.
\<close>

definition np_sub :: "real list \<Rightarrow> real list \<Rightarrow> error + real list" where
  "np_sub x y =
     (if length x = length y then Inr (map2 (-) x y)
      else if length x = 1 then Inr (map (\<lambda>b. x ! 0 - b) y)
      else if length y = 1 then Inr (map (\<lambda>a. a - y ! 0) x)
      else Inl ValueError)"

text \<open>
  \<open>G += G_tmp\<close> on an array \<open>G\<close>: the sum is written into \<open>G\<close>, so only
  \<open>G_tmp\<close> can be stretched.
\<close>

definition np_iadd :: "real list \<Rightarrow> real list \<Rightarrow> error + real list" where
  "np_iadd G G_tmp =
     (if length G_tmp = length G then Inr (map2 (+) G G_tmp)
      else if length G_tmp = 1 then Inr (map (\<lambda>g. g + G_tmp ! 0) G)
      else Inl ValueError)"

text \<open>
  \<open>computeLikelihoodGradientHessian(beta, X, X_spikes, sum_X_spikes)\<close>. The two
  products with \<open>beta\<close> come first and raise on a matrix whose rows do not fit
  \<open>beta\<close>; after them \<open>X\<close> has \<open>len(beta)\<close> columns, and the subtraction that
  gives \<open>G\<close> is the only other statement that can raise.
\<close>

definition computeLikelihoodGradientHessian ::
  "GIF \<Rightarrow> real list \<Rightarrow> real list list \<Rightarrow> real list list \<Rightarrow> real list
     \<Rightarrow> error + real \<times> real list \<times> real list list" where
  "computeLikelihoodGradientHessian m beta X X_spikes sum_X_spikes =
     (let dt' = dt m / 1000;
          p = length beta
      in bind_err (np_dot X_spikes beta) (\<lambda>X_spikesbeta.
         bind_err (np_dot X beta) (\<lambda>Xbeta.
           let expXbeta = map exp Xbeta;
               L = sum_list X_spikesbeta - lambda0 m * dt' * sum_list expXbeta
           in bind_err (np_sub sum_X_spikes
                          (map (\<lambda>j. lambda0 m * dt' * dot (map (\<lambda>row. row ! j) X) expXbeta)
                             [0..<p])) (\<lambda>G.
                let H = map (\<lambda>j. map (\<lambda>k. - lambda0 m * dt'
                              * sum_list (map2 (\<lambda>row e. row ! j * e * row ! k) X expXbeta))
                                  [0..<p]) [0..<p]
                in Inr (L, G, H)))))"

text \<open>
  \<open>numpy.linalg.inv\<close>, which raises LinAlgError on a singular matrix: over the reals,
  the adjugate divided by the determinant (expansion along the first row).
\<close>

definition minor_mat :: "real list list \<Rightarrow> nat \<Rightarrow> nat \<Rightarrow> real list list" where
  "minor_mat M i j = map (\<lambda>row. take j row @ drop (Suc j) row) (take i M @ drop (Suc i) M)"

fun det :: "nat \<Rightarrow> real list list \<Rightarrow> real" where
  "det 0 M = 1"
| "det (Suc n) M =
     sum_list (map (\<lambda>j. (- 1) ^ j * (M ! 0 ! j) * det n (minor_mat M 0 j)) [0..<Suc n])"

definition inv_mat :: "real list list \<Rightarrow> error + real list list" where
  "inv_mat M =
     (let n = length M; d = det n M in
      if n = 0 \<or> d = 0 then Inl LinAlgError
      else Inr (map (\<lambda>i. map (\<lambda>j. (- 1) ^ (i + j) * det (n - 1) (minor_mat M j i) / d)
                       [0..<n]) [0..<n]))"

text \<open>
  \<open>L=0; G=0; H=0\<close> and the loop over the traces that adds each trace's
  \<open>(L_tmp, G_tmp, H_tmp)\<close>. Until a trace has been added, \<open>G\<close> and \<open>H\<close> are
  the number 0 (\<open>None\<close>), and the first addition gives the arrays of the trace. Every
  \<open>H_tmp\<close> is square of order \<open>len(beta)\<close>.
\<close>

type_synonym design = "real list list \<times> real list list \<times> real list"

fun add_LGH ::
  "real \<times> (real list \<times> real list list) option \<Rightarrow> real \<times> real list \<times> real list list
     \<Rightarrow> error + real \<times> (real list \<times> real list list) option" where
  "add_LGH (L, None) (L_tmp, G_tmp, H_tmp) = Inr (L + L_tmp, Some (G_tmp, H_tmp))"
| "add_LGH (L, Some (G, H)) (L_tmp, G_tmp, H_tmp) =
     bind_err (np_iadd G G_tmp) (\<lambda>G'.
       Inr (L + L_tmp, Some (G', map2 (map2 (+)) H H_tmp)))"

fun sum_LGH ::
  "GIF \<Rightarrow> real list \<Rightarrow> real \<times> (real list \<times> real list list) option \<Rightarrow> design list
     \<Rightarrow> error + real \<times> (real list \<times> real list list) option" where
  "sum_LGH m beta acc [] = Inr acc"
| "sum_LGH m beta acc ((X, X_spikes, sum_X_spikes) # rest) =
     bind_err (computeLikelihoodGradientHessian m beta X X_spikes sum_X_spikes) (\<lambda>LGH.
     bind_err (add_LGH acc LGH) (\<lambda>acc'.
       sum_LGH m beta acc' rest))"

text \<open>
  The rest of a pass of the loop, from \<open>L=0; G=0; H=0\<close> to the Newton step
  \<open>beta = beta - learning_rate*np.dot(inv(H),G)\<close>; it returns the new \<open>beta\<close> and
  \<open>L\<close>. \<open>inv\<close> of the number 0 raises LinAlgError as well (not a matrix).
\<close>

definition newton_step ::
  "GIF \<Rightarrow> design list \<Rightarrow> real \<Rightarrow> real list \<Rightarrow> error + real list \<times> real" where
  "newton_step m all learning_rate beta =
     bind_err (sum_LGH m beta (0, None) all) (\<lambda>(L, GH).
       case GH of
         None \<Rightarrow> Inl LinAlgError
       | Some (G, H) \<Rightarrow>
           bind_err (inv_mat H) (\<lambda>H_inv.
           bind_err (np_dot H_inv G) (\<lambda>d.
             Inr (map2 (\<lambda>b d. b - learning_rate * d) beta d, L))))"

text \<open>
  \<open>for i in range(maxIter)\<close> with its two \<open>break\<close>s. Each pass sets
  \<open>learning_rate\<close> from the loop index \<open>i\<close>, which counts from 0. The quotient
  \<open>(L-old_L)/old_L\<close> of numpy floats is infinite or NaN for \<open>old_L = 0\<close>, and the
  comparison is then false. Whether the float \<open>L_norm\<close> of pass \<open>i\<close> is NaN is not
  decided by the reals: it is the parameter \<open>nan_at i\<close>. The result carries the
  number of passes made.
\<close>

function newton_loop ::
  "GIF \<Rightarrow> design list \<Rightarrow> (nat \<Rightarrow> bool)
     \<Rightarrow> nat \<Rightarrow> real \<Rightarrow> nat \<Rightarrow> real list \<Rightarrow> real \<Rightarrow> error + real list \<times> nat" where
  "newton_loop m all nan_at maxIter stopCond i beta old_L =
     (if i < maxIter then
        (let learning_rate = (if i \<le> 10 then 0.1 else 1.0) in
         case newton_step m all learning_rate beta of
           Inl e \<Rightarrow> Inl e
         | Inr (beta', L) \<Rightarrow>
             if i > 0 \<and> old_L \<noteq> 0 \<and> \<bar>(L - old_L) / old_L\<bar> < stopCond then Inr (beta', i + 1)
             else if nan_at i then Inr (beta', i + 1)
             else newton_loop m all nan_at maxIter stopCond (i + 1) beta' L)
      else Inr (beta, i))"
  by pat_completeness auto
termination
  by (relation "measure (\<lambda>(m, all, nan_at, maxIter, stopCond, i, beta, old_L). maxIter - i)") auto

declare newton_loop.simps [simp del]

text \<open>
  The attributes of a \<open>Trace\<close> that the precomputation reads besides \<open>useTrace\<close>:
  the arrays \<open>tr.I\<close> and \<open>tr.V\<close> and the value of \<open>tr.getSpikeTimes()\<close>.
\<close>

record Trace_signals = Trace +
  trace_I :: "real list"
  trace_V :: "real list"
  getSpikeTimes :: "real list"

text \<open>
  The precomputation, \<open>for tr in experiment.trainingset_traces\<close>. A used trace is
  simulated with its spikes forced, and the caller's function \<open>buildXmatrix\<close> turns
  the trace and the simulated voltage into \<open>(X, X_spikes, sum_X_spikes, N_spikes, T)\<close>;
  whatever either call raises ends \<open>maximizeLikelihood\<close>. \<open>tr.V[0]\<close> raises on an
  empty array. \<open>k\<close> is the position of the trace in the list, \<open>beyond k\<close> the words
  behind the array \<open>spks_i\<close> of its simulation, and \<open>p_eta\<close> the interpolated
  kernel, which depends on the model only.
\<close>

fun precompute ::
  "GIF \<Rightarrow> real list \<Rightarrow> (nat \<Rightarrow> int list)
     \<Rightarrow> (Trace_signals \<Rightarrow> real list \<Rightarrow> error + design \<times> nat \<times> real)
     \<Rightarrow> nat \<Rightarrow> Trace_signals list \<Rightarrow> design list \<times> real \<times> real
     \<Rightarrow> error + design list \<times> real \<times> real" where
  "precompute m p_eta beyond buildXmatrix k [] acc = Inr acc"
| "precompute m p_eta beyond buildXmatrix k (tr # trs) (all, T_tot, N_spikes_tot) =
     (if useTrace tr then
        bind_err (if trace_V tr = [] then Inl IndexError else Inr (trace_V tr ! 0)) (\<lambda>V0.
        bind_err (simulateDeterministic_forceSpikes m p_eta (beyond k) (trace_I tr) V0
                    (getSpikeTimes tr)) (\<lambda>sim.
        bind_err (buildXmatrix tr (ret_V sim)) (\<lambda>(X, N_spikes, T).
          precompute m p_eta beyond buildXmatrix (Suc k) trs
            (all @ [X], T_tot + T, N_spikes_tot + real N_spikes))))
      else precompute m p_eta beyond buildXmatrix (Suc k) trs (all, T_tot, N_spikes_tot))"

text \<open>
  \<open>maximizeLikelihood(experiment, beta0, buildXmatrix, maxIter, stopCond)\<close>, on the
  list \<open>experiment.trainingset_traces\<close>. After the precomputation,
  \<open>logL_poisson = N_spikes_tot*(np.log(N_spikes_tot/T_tot)-1)\<close> divides two Python
  floats (\<open>T\<close> is the float \<open>T_l_selection*tr.dt/1000.0\<close> in both functions that the
  class passes as \<open>buildXmatrix\<close>) and raises ZeroDivisionError for \<open>T_tot = 0.0\<close>,
  as it is without a used trace. The value of \<open>logL_poisson\<close> enters \<open>L_norm\<close>
  only. The gradient ascent starts from \<open>beta = beta0\<close> and \<open>old_L = 1\<close>. After a
  loop that made no pass, \<open>i\<close> is unbound in \<open>if (i==maxIter - 1)\<close>.
\<close>

definition maximizeLikelihood ::
  "GIF \<Rightarrow> real list \<Rightarrow> (nat \<Rightarrow> int list) \<Rightarrow> (nat \<Rightarrow> bool) \<Rightarrow> Trace_signals list \<Rightarrow> real list
     \<Rightarrow> (Trace_signals \<Rightarrow> real list \<Rightarrow> error + design \<times> nat \<times> real)
     \<Rightarrow> nat \<Rightarrow> real \<Rightarrow> error + real list \<times> nat" where
  "maximizeLikelihood m p_eta beyond nan_at traces beta0 buildXmatrix maxIter stopCond =
     bind_err (precompute m p_eta beyond buildXmatrix 0 traces ([], 0, 0))
       (\<lambda>(all, T_tot, N_spikes_tot).
          if T_tot = 0 then Inl ZeroDivisionError
          else if maxIter = 0 then Inl NameError
          else newton_loop m all nan_at maxIter stopCond 0 beta0 1)"

text \<open>
  The shapes that fit a parameter vector of length \<open>p\<close>: every row of every \<open>X\<close>
  and \<open>X_spikes\<close> has \<open>p\<close> entries, and so has every \<open>sum_X_spikes\<close>. For an
  accumulated \<open>(L, G, H)\<close>: \<open>G\<close> and \<open>H\<close> have \<open>p\<close> entries once they are
  arrays. With such shapes numpy has nothing to stretch and nothing to reject.
\<close>

definition shapes_fit :: "nat \<Rightarrow> design list \<Rightarrow> bool" where
  "shapes_fit p all =
     list_all (\<lambda>(X, X_spikes, sum_X_spikes).
        list_all (\<lambda>row. length row = p) X \<and> list_all (\<lambda>row. length row = p) X_spikes
        \<and> length sum_X_spikes = p) all"

definition acc_fits :: "nat \<Rightarrow> real \<times> (real list \<times> real list list) option \<Rightarrow> bool" where
  "acc_fits p acc = (case snd acc of None \<Rightarrow> True | Some (G, H) \<Rightarrow> length G = p \<and> length H = p)"

subsection \<open>fitSubthresholdDynamics: the regression\<close>

text \<open>
  \<open>np.dot(np.transpose(X), X)\<close> and \<open>np.dot(np.transpose(X), Y)\<close>; the number of
  columns is read off the first row, and a matrix without rows has none.
\<close>

definition XTX :: "real list list \<Rightarrow> real list list" where
  "XTX X =
     (let p = (case X of [] \<Rightarrow> 0 | row # _ \<Rightarrow> length row) in
      map (\<lambda>j. map (\<lambda>k. sum_list (map (\<lambda>row. row ! j * row ! k) X)) [0..<p]) [0..<p])"

definition XTY :: "real list list \<Rightarrow> real list \<Rightarrow> real list" where
  "XTY X Y =
     (let p = (case X of [] \<Rightarrow> 0 | row # _ \<Rightarrow> length row) in
      map (\<lambda>j. sum_list (map2 (\<lambda>row y. row ! j * y) X Y)) [0..<p])"

text \<open>
  \<open>b = np.dot(inv(XTX), XTY)\<close>, flattened. Without a training trace \<open>X\<close> is empty
  and \<open>inv\<close> raises.
\<close>

definition linear_regression :: "real list list \<Rightarrow> real list \<Rightarrow> error + real list" where
  "linear_regression X Y =
     bind_err (inv_mat (XTX X)) (\<lambda>XTX_inv. Inr (mat_vec XTX_inv (XTY X Y)))"

text \<open>
  The regression of \<open>fitSubthresholdDynamics\<close> on the stacked \<open>X\<close> and \<open>Y\<close>,
  followed by the extraction of the parameters.
\<close>

definition fitSubthresholdDynamics_regression ::
  "GIF \<Rightarrow> real list list \<Rightarrow> real list \<Rightarrow> error + GIF" where
  "fitSubthresholdDynamics_regression m X Y =
     bind_err (linear_regression X Y) (\<lambda>b. extract_parameters m b)"

subsection \<open>Inputs of the examples\<close>

text \<open>
  A trace of two samples whose only spike, at 5000 ms, lies behind them; a function
  for \<open>buildXmatrix\<close> that returns three samples with the design row \<open>[1]\<close>, one of
  them a spike, and one that returns a single sample with the design row \<open>[0]\<close>; a
  memory in which nothing can be read behind \<open>spks_i\<close>.
\<close>

definition example_trace :: Trace_signals where
  "example_trace =
     \<lparr>useTrace = True, spks = [5], averageSpikeShape = ([], [], 0),
      trace_I = [0, 0], trace_V = [- 65, - 65], getSpikeTimes = [5000]\<rparr>"

definition example_buildXmatrix ::
  "Trace_signals \<Rightarrow> real list \<Rightarrow> error + design \<times> nat \<times> real" where
  "example_buildXmatrix tr V_est = Inr (([[1], [1], [1]], [[1]], [1]), 1, 3)"

definition zero_buildXmatrix ::
  "Trace_signals \<Rightarrow> real list \<Rightarrow> error + design \<times> nat \<times> real" where
  "zero_buildXmatrix tr V_est = Inr (([[0]], [[0]], [0]), 1, 1)"

definition no_words :: "nat \<Rightarrow> int list" where
  "no_words k = []"

text \<open>A run in which no pass finds \<open>L_norm\<close> to be NaN.\<close>

definition no_nan :: "nat \<Rightarrow> bool" where
  "no_nan i = False"

text \<open>The draws of a run in which \<open>rand()\<close> returns \<open>RAND_MAX\<close> every time.\<close>

definition draws_one :: "nat \<Rightarrow> real" where
  "draws_one k = 1"

section \<open>Properties\<close>

subsection \<open>Rounded quotients\<close>

text \<open>Rounding keeps the sign, and the offsets of the usual time steps.\<close>

lemma pow2_pos: "0 < pow2 e"
  by (simp add: pow2_def)

lemma round_even_nonneg: "0 \<le> x \<Longrightarrow> 0 \<le> round_even x"
  by (simp add: round_even_def Let_def)

lemma fl_nonneg: "0 \<le> x \<Longrightarrow> 0 \<le> fl p x"
  using pow2_pos [of "binade x - (int p - 1)"]
  by (simp add: fl_def Let_def round_even_nonneg less_imp_le)

lemma ilog2_numeral [simp]:
  "ilog2 (numeral k) = (if numeral k < (2::nat) then 0 else Suc (ilog2 (numeral k div 2)))"
  by (rule ilog2.simps)

lemma ilog2_small [simp]: "ilog2 0 = 0" "ilog2 1 = 0" "ilog2 (Suc 0) = 0"
  by (simp_all add: ilog2.simps)

lemmas fl_eval = fl_def binade_def pow2_def round_even_def py_int_def Let_def

lemma GIF_init_sel:
  "dt (GIF_init d e g) = d" "Tref (GIF_init d e g) = 4" "Vr (GIF_init d e g) = - 50"
  "gl (GIF_init d e g) = 1 / 100" "C (GIF_init d e g) = 1 / 5" "El (GIF_init d e g) = - 65"
  "Vt_star (GIF_init d e g) = - 48" "DV (GIF_init d e g) = 1 / 2" "lambda0 (GIF_init d e g) = 1"
  by (simp_all add: GIF_init_def)

lemma Tref_ind_examples:
  "Tref_ind (GIF_init 1 e g) = 4"
  "Tref_ind (GIF_init (1 / 10) e g) = 40"
  "Tref_ind (GIF_init (5 / 2) e g) = 1"
  "Tref_ind (GIF_init (2 / 125) e g) = 249"
  "Tref_ind (GIF_init 1000 e g) = 0"
  by (simp_all add: Tref_ind_def GIF_init_sel fl_eval)

lemma p_Tref_i_examples:
  "p_Tref_i (GIF_init (1 / 10) e g) = 40"
  "p_Tref_i (GIF_init (5 / 2) e g) = 1"
  "p_Tref_i (GIF_init (2 / 125) e g) = 250"
  "p_Tref_i (GIF_init 1000 e g) = 0"
  by (simp_all add: p_Tref_i_def GIF_init_sel fl_eval)

subsection \<open>Parameter recovery in fitSubthresholdDynamics\<close>

lemma extract_parameters_Inr:
  assumes "3 \<le> length b"
  shows "extract_parameters m b
           = Inr (m\<lparr>C := 1 / (b ! 1), gl := - (b ! 0) * (1 / (b ! 1)),
                    El := (b ! 2) * (1 / (b ! 1)) / (- (b ! 0) * (1 / (b ! 1))),
                    eta := (eta m)\<lparr>filter_coefficients :=
                             map (\<lambda>x. - x * (1 / (b ! 1))) (drop 3 b)\<rparr>\<rparr>)"
  using assms by (simp add: extract_parameters_def Let_def)

text \<open>
  The recovered parameters turn the regression model back into the voltage equation:
  \<open>b[0]*V + b[1]*I + b[2]\<close> is \<open>(-gl*(V - El) + I)/C\<close>.
\<close>

lemma recovered_parameters_consistent:
  assumes "extract_parameters m b = Inr m'" "b ! 0 \<noteq> 0" "b ! 1 \<noteq> 0"
  shows "b ! 0 * v + b ! 1 * i + b ! 2 = (- gl m' * (v - El m') + i) / C m'"
proof -
  from assms(1) have l: "3 \<le> length b"
    by (auto simp: extract_parameters_def Let_def split: if_splits)
  from assms(1) extract_parameters_Inr [OF l, of m]
  have c: "C m' = 1 / (b ! 1)" and g: "gl m' = - (b ! 0) * (1 / (b ! 1))"
    and e: "El m' = (b ! 2) * (1 / (b ! 1)) / (- (b ! 0) * (1 / (b ! 1)))"
    by auto
  show ?thesis
    unfolding c g e using assms(2,3) by (simp add: field_simps)
qed

text \<open>
  C9. Once the regression has produced the coefficient vector \<open>b\<close> (of length 3 at
  least), the stage sets \<open>C = 1/b[1]\<close>, \<open>gl = -b[0]*C\<close>, \<open>El = b[2]*C/gl\<close> and
  the coefficients of \<open>eta\<close> to \<open>-b[3:]*C\<close>, and changes nothing else of the model.
\<close>

theorem fitSubthresholdDynamics_recovers:
  assumes "linear_regression X Y = Inr b" "3 \<le> length b"
  shows "\<exists>m'. fitSubthresholdDynamics_regression m X Y = Inr m'
           \<and> C m' = 1 / (b ! 1)
           \<and> gl m' = - (b ! 0) * C m'
           \<and> El m' = (b ! 2) * C m' / gl m'
           \<and> filter_coefficients (eta m') = map (\<lambda>x. - x * C m') (drop 3 b)
           \<and> dt m' = dt m \<and> Vr m' = Vr m \<and> Tref m' = Tref m
           \<and> Vt_star m' = Vt_star m \<and> DV m' = DV m \<and> lambda0 m' = lambda0 m
           \<and> gamma m' = gamma m"
  using assms
  by (simp add: fitSubthresholdDynamics_regression_def bind_err_def extract_parameters_Inr)

lemma regression_example:
  "linear_regression [[0, 0, 1, 0], [20, 0, 1, 0], [0, 1, 1, 0], [0, 0, 1, 1]]
     [- 13 / 4, - 17 / 4, 7 / 4, - 5 / 4] = Inr [- 1 / 20, 5, - 13 / 4, 2]"
  by (simp add: linear_regression_def XTX_def XTY_def inv_mat_def minor_mat_def mat_vec_def
        dot_def bind_err_def upt_rec nth_Cons' Let_def)

theorem fitSubthresholdDynamics_recovers_witness:
  "\<exists>m'. fitSubthresholdDynamics_regression (GIF_init (1 / 10) [] [])
           [[0, 0, 1, 0], [20, 0, 1, 0], [0, 1, 1, 0], [0, 0, 1, 1]]
           [- 13 / 4, - 17 / 4, 7 / 4, - 5 / 4] = Inr m'
        \<and> C m' = 1 / 5 \<and> gl m' = 1 / 100 \<and> El m' = - 65
        \<and> filter_coefficients (eta m') = [- 2 / 5]"
proof -
  have h: "3 \<le> length [- 1 / 20, 5, - 13 / 4, 2 :: real]" by simp
  from fitSubthresholdDynamics_recovers [OF regression_example h, of "GIF_init (1 / 10) [] []"]
  obtain m' where e: "fitSubthresholdDynamics_regression (GIF_init (1 / 10) [] [])
           [[0, 0, 1, 0], [20, 0, 1, 0], [0, 1, 1, 0], [0, 0, 1, 1]]
           [- 13 / 4, - 17 / 4, 7 / 4, - 5 / 4] = Inr m'"
    and c: "C m' = 1 / ([- 1 / 20, 5, - 13 / 4, 2 :: real] ! 1)"
    and g: "gl m' = - ([- 1 / 20, 5, - 13 / 4, 2 :: real] ! 0) * C m'"
    and l: "El m' = ([- 1 / 20, 5, - 13 / 4, 2 :: real] ! 2) * C m' / gl m'"
    and f: "filter_coefficients (eta m') =
              map (\<lambda>x. - x * C m') (drop 3 [- 1 / 20, 5, - 13 / 4, 2 :: real])"
    by blast
  have c': "C m' = 1 / 5" using c by simp
  have g': "gl m' = 1 / 100" using g c' by simp
  have l': "El m' = - 65" using l c' g' by simp
  have f': "filter_coefficients (eta m') = [- 2 / 5]" using f c' by simp
  show ?thesis using e c' g' l' f' by blast
qed

subsection \<open>The regression target of fitSubthresholdDynamics\<close>

lemma take_indices_Inr:
  "\<forall>i \<in> set sel. i < length xs \<Longrightarrow> take_indices xs sel = Inr (map (\<lambda>i. xs ! i) sel)"
  by (simp add: take_indices_def)

lemma diff_quotient_nth:
  "t < length V \<Longrightarrow>
   (map (\<lambda>d. d / trace_dt) (np_diff V) @ [0]) ! t
     = (if t + 1 < length V then (V ! (t + 1) - V ! t) / trace_dt else 0)"
  by (auto simp: np_diff_def nth_append)

lemma Build_Yvector_Inr:
  assumes "\<forall>t \<in> set selection. t < length V"
  shows "\<exists>Y. Build_Yvector V trace_dt selection = Inr Y
           \<and> length Y = length selection
           \<and> (\<forall>k < length selection.
                 Y ! k = (if selection ! k + 1 < length V
                          then (V ! (selection ! k + 1) - V ! (selection ! k)) / trace_dt
                          else 0))"
proof -
  have len: "length (map (\<lambda>d. d / trace_dt) (np_diff V) @ [0]) = max 1 (length V)"
    by (cases V) (simp_all add: np_diff_def)
  have inb: "\<forall>i \<in> set selection. i < length (map (\<lambda>d. d / trace_dt) (np_diff V) @ [0])"
    using assms unfolding len by auto
  have "Build_Yvector V trace_dt selection
          = Inr (map (\<lambda>i. (map (\<lambda>d. d / trace_dt) (np_diff V) @ [0]) ! i) selection)"
    unfolding Build_Yvector_def by (rule take_indices_Inr [OF inb])
  moreover have "\<forall>k < length selection.
      map (\<lambda>i. (map (\<lambda>d. d / trace_dt) (np_diff V) @ [0]) ! i) selection ! k
        = (if selection ! k + 1 < length V
           then (V ! (selection ! k + 1) - V ! (selection ! k)) / trace_dt else 0)"
    using assms by (simp add: diff_quotient_nth)
  ultimately show ?thesis by simp
qed

text \<open>
  C5, as the code has it. For a selection inside the trace, \<open>Y\<close> has one entry per
  selected index \<open>t\<close>: the difference quotient \<open>(V[t+1]-V[t])/dt\<close> when \<open>t\<close> is
  not the final sample, and the padding value 0 when it is. The final sample is padded,
  not dropped: a selection that contains it keeps its row.
\<close>

theorem Build_Xmatrix_Yvector_target:
  assumes "\<forall>t \<in> set selection. t < length V \<and> t < length I \<and> t < length X_eta"
  shows "\<exists>X Y. fitSubthresholdDynamics_Build_Xmatrix_Yvector V I trace_dt X_eta selection
                  = Inr (X, Y)
           \<and> length X = length selection \<and> length Y = length selection
           \<and> (\<forall>k < length selection.
                 Y ! k = (if selection ! k + 1 < length V
                          then (V ! (selection ! k + 1) - V ! (selection ! k)) / trace_dt
                          else 0))"
proof -
  from assms have v: "\<forall>t \<in> set selection. t < length V"
    and i: "\<forall>t \<in> set selection. t < length I"
    and e: "\<forall>t \<in> set selection. t < length X_eta" by auto
  from Build_Yvector_Inr [OF v, of trace_dt]
  obtain Y where y: "Build_Yvector V trace_dt selection = Inr Y"
    and l: "length Y = length selection"
    and k: "\<forall>k < length selection.
                 Y ! k = (if selection ! k + 1 < length V
                          then (V ! (selection ! k + 1) - V ! (selection ! k)) / trace_dt
                          else 0)"
    by blast
  show ?thesis
    using l k
    by (simp add: fitSubthresholdDynamics_Build_Xmatrix_Yvector_def bind_err_def y
          take_indices_Inr [OF v] take_indices_Inr [OF i] take_indices_Inr [OF e])
qed

theorem Build_Xmatrix_Yvector_target_witness:
  "\<exists>X Y. fitSubthresholdDynamics_Build_Xmatrix_Yvector [1, 2, 4, 8] [5, 6, 7, 8] 2
            [[0], [1], [1 / 2], [1 / 4]] [0, 2, 3] = Inr (X, Y)
         \<and> Y ! 0 = (2 - 1) / 2 \<and> Y ! 1 = (8 - 4) / 2 \<and> Y ! 2 = 0 \<and> length Y = 3"
proof -
  have h: "\<forall>t \<in> set [0, 2, 3 :: nat]. t < length [1, 2, 4, 8 :: real]
             \<and> t < length [5, 6, 7, 8 :: real] \<and> t < length [[0], [1], [1 / 2], [1 / 4 :: real]]"
    by simp
  from Build_Xmatrix_Yvector_target [OF h, of 2]
  obtain X Y where y: "fitSubthresholdDynamics_Build_Xmatrix_Yvector [1, 2, 4, 8] [5, 6, 7, 8] 2
            [[0], [1], [1 / 2], [1 / 4]] [0, 2, 3] = Inr (X, Y)"
    and l: "length Y = length [0, 2, 3 :: nat]"
    and e: "\<forall>k < length [0, 2, 3 :: nat].
              Y ! k = (if [0, 2, 3] ! k + 1 < length [1, 2, 4, 8 :: real]
                       then ([1, 2, 4, 8] ! ([0, 2, 3] ! k + 1) - [1, 2, 4, 8] ! ([0, 2, 3] ! k)) / 2
                       else 0)"
    by blast
  from e have "Y ! 0 = (2 - 1) / 2" "Y ! 1 = (8 - 4) / 2" "Y ! 2 = 0"
    by (simp_all add: nth_Cons')
  with y l show ?thesis by auto
qed

text \<open>
  The claim as the spec states it fails when the final sample is selected: the code
  keeps three rows and three targets where the spec's wording leaves two.
\<close>

theorem Build_Xmatrix_Yvector_keeps_final_sample_counterexample:
  "fitSubthresholdDynamics_Build_Xmatrix_Yvector [1, 2, 3] [0, 0, 0] 1 [[], [], []] [0, 1, 2]
     = Inr ([[1, 0, 1], [2, 0, 1], [3, 0, 1]], [1, 1, 0])
   \<and> Yvector_final_dropped [1, 2, 3] 1 [0, 1, 2] = [1, 1]"
  by (simp add: fitSubthresholdDynamics_Build_Xmatrix_Yvector_def Build_Yvector_def
        take_indices_def np_diff_def Yvector_final_dropped_def bind_err_def
        upt_rec nth_Cons' nth_append)

subsection \<open>The stochastic engine\<close>

lemma where_is_one_zeros: "where_is_one (replicate n 0) = []"
  by (simp add: where_is_one_def filter_empty_conv)

text \<open>
  C2, as the code has it. On an input of length 0 the call raises: \<open>V[0] = V0\<close>
  indexes an empty array. On an input of length 1 (with a positive time step and a
  refractory period that is not negative) the loop makes no pass and the call returns
  no spike and the one-element voltage array \<open>[V0]\<close>; a returned result means that
  no access has left its array.
\<close>

theorem simulate_short_input:
  "simulate m p_eta p_gamma rnd [] V0 = Inl IndexError
   \<and> (0 < dt m \<and> 0 \<le> Tref m \<longrightarrow>
        (\<exists>res. simulate m p_eta p_gamma rnd [i] V0 = Inr res
           \<and> res_spks res = [] \<and> res_V res = [V0] \<and> length (res_V res) = length [i]))"
  by (simp add: simulate_def simulate_loop.simps bind_err_def where_is_one_def)

lemma integrate_voltage_Inr:
  assumes "t + 1 < length V" "t < length I" "t < length eta_sum"
  shows "integrate_voltage m I eta_sum V t
           = Inr (V[t + 1 := euler m (V ! t) (I ! t) (eta_sum ! t)])"
  using assms by (simp add: integrate_voltage_def bind_err_def rd_def wr_def)

lemma simulate_body_no_spike:
  assumes "lambda0 m = 0" "r \<le> 1"
    and "t + 1 < length (sim_V s)" "t < length I"
    and "t < length (sim_eta_sum s)" "t < length (sim_gamma_sum s)"
  shows "simulate_body m Tref_i p_eta p_gamma T_ind I r t s
           = Inr (0, s\<lparr>sim_V := (sim_V s)[t + 1 :=
                     euler m (sim_V s ! t) (I ! t) (sim_eta_sum s ! t)]\<rparr>)"
  using assms
  by (simp add: simulate_body_def integrate_voltage_Inr bind_err_def rd_def Let_def)

lemma simulate_loop_no_spike:
  assumes "lambda0 m = 0" "\<forall>k. rnd k \<le> 1"
    and "length (sim_V s) = T_ind" "length I = T_ind"
    and "T_ind \<le> length (sim_eta_sum s)" "T_ind \<le> length (sim_gamma_sum s)"
  shows "\<exists>s'. simulate_loop m Tref_i p_eta p_gamma T_ind I rnd k t s = Inr s'
           \<and> sim_spks s' = sim_spks s \<and> length (sim_V s') = T_ind"
  using assms
proof (induction m Tref_i p_eta p_gamma T_ind I rnd k t s rule: simulate_loop.induct)
  case (1 m Tref_i p_eta p_gamma T_ind I rnd k t s)
  show ?case
  proof (cases "t < T_ind - 1")
    case False
    with "1.prems" show ?thesis by (simp add: simulate_loop.simps)
  next
    case True
    let ?s1 = "s\<lparr>sim_V := (sim_V s)[t + 1 := euler m (sim_V s ! t) (I ! t) (sim_eta_sum s ! t)]\<rparr>"
    have b: "simulate_body m Tref_i p_eta p_gamma T_ind I (rnd k) t s = Inr (0, ?s1)"
      using True "1.prems" by (intro simulate_body_no_spike) auto
    have "\<exists>s'. simulate_loop m Tref_i p_eta p_gamma T_ind I rnd (Suc k) (t + 0 + 1) ?s1 = Inr s'
              \<and> sim_spks s' = sim_spks ?s1 \<and> length (sim_V s') = T_ind"
      using "1.prems" by (intro "1.IH" [OF True b refl]) auto
    then show ?thesis
      using True b by (simp add: simulate_loop.simps [of m Tref_i p_eta p_gamma T_ind I rnd k t s])
  qed
qed

text \<open>
  C7. With \<open>lambda0 = 0\<close> and draws that do not exceed 1, \<open>p_dontspike\<close> is
  \<open>exp 0 = 1\<close> in every pass and \<open>r > p_dontspike\<close> never holds: whatever the
  input, the initial voltage and the kernels, a result that is returned has no spike,
  and a result is returned for every input that is not empty.
\<close>

theorem simulate_lambda0_zero_no_spikes:
  assumes "lambda0 m = 0" "\<forall>k. rnd k \<le> 1"
  shows "(\<forall>res. simulate m p_eta p_gamma rnd I V0 = Inr res \<longrightarrow> res_spks res = [])
         \<and> (I \<noteq> [] \<and> 0 < dt m \<and> 0 \<le> Tref m \<longrightarrow>
              (\<exists>res. simulate m p_eta p_gamma rnd I V0 = Inr res \<and> res_spks res = []
                 \<and> length (res_V res) = length I))"
proof -
  let ?s0 = "\<lparr>sim_V = (replicate (length I) 0)[0 := V0], sim_spks = replicate (length I) 0,
              sim_eta_sum = replicate (length I + 2 * length p_eta) 0,
              sim_gamma_sum = replicate (length I + 2 * length p_gamma) 0\<rparr>"
  obtain s' where
    l: "simulate_loop m (nat (Tref_ind m)) p_eta p_gamma (length I) I rnd 0 0 ?s0 = Inr s'"
    and sp: "sim_spks s' = sim_spks ?s0" and lv: "length (sim_V s') = length I"
    using simulate_loop_no_spike [OF assms, of ?s0 "length I" I "nat (Tref_ind m)" p_eta p_gamma 0 0]
    by auto
  show ?thesis
    using l sp lv
    by (auto simp: simulate_def Let_def bind_err_def where_is_one_zeros split: if_splits)
qed


theorem simulate_short_input_witness:
  "0 < dt (GIF_init (1 / 10) [] []) \<and> 0 \<le> Tref (GIF_init (1 / 10) [] [])
   \<and> simulate (GIF_init (1 / 10) [] []) [1 / 5, 1 / 10] [10] draws_one [] (- 65) = Inl IndexError
   \<and> (\<exists>res. simulate (GIF_init (1 / 10) [] []) [1 / 5, 1 / 10] [10] draws_one [3] (- 65) = Inr res
         \<and> res_spks res = [] \<and> res_V res = [- 65])"
  using simulate_short_input [of "GIF_init (1 / 10) [] []" "[1 / 5, 1 / 10]" "[10]" draws_one
          "- 65" 3]
  by (auto simp: GIF_init_def)

text \<open>The claim as the spec states it fails on the empty input.\<close>

theorem simulate_empty_input_counterexample:
  "simulate (GIF_init (1 / 10) [] []) [1 / 5, 1 / 10] [10] draws_one [] (- 65) = Inl IndexError"
  by (simp add: simulate_def)

theorem simulate_lambda0_zero_no_spikes_witness:
  "lambda0 ((GIF_init 1 [] [])\<lparr>lambda0 := 0\<rparr>) = 0 \<and> (\<forall>k. draws_one k \<le> 1)
   \<and> (\<exists>res. simulate ((GIF_init 1 [] [])\<lparr>lambda0 := 0\<rparr>) [1 / 5] [10] draws_one [1, 2, 3] (- 65)
               = Inr res
         \<and> res_spks res = [] \<and> length (res_V res) = 3)"
  using simulate_lambda0_zero_no_spikes [of "(GIF_init 1 [] [])\<lparr>lambda0 := 0\<rparr>" draws_one
          "[1 / 5]" "[10]" "[1, 2, 3]" "- 65"]
  by (auto simp: GIF_init_def draws_one_def)

text \<open>
  C6 fails on the code. With a refractory period of 4 samples and an \<open>eta\<close> kernel
  of one sample, a spike in the first pass of a two-sample input makes the loop write
  \<open>eta_sum[5]\<close>, and \<open>eta_sum\<close> has \<open>2 + 2*1 = 4\<close> elements. The run starts
  at \<open>V0 = -40\<close>, well above the threshold, where \<open>p_dontspike\<close> is about
  \<open>exp(-729)\<close>.
\<close>

theorem simulate_eta_sum_overflow:
  "simulate (GIF_init 1 [] []) [1 / 5] [] draws_one [0, 0] (- 40) = Inl (OOBWrite ''eta_sum'' 5)"
  by (simp add: simulate_def simulate_loop.simps simulate_body_def integrate_voltage_def
        bind_err_def rd_def wr_def Let_def Tref_ind_examples GIF_init_sel draws_one_def euler_def)

text \<open>
  What the padding of \<open>2*len(kernel)\<close> does guarantee: when the refractory period
  is at most one sample longer than each kernel that is not empty, no access of
  \<open>simulate\<close> leaves its array, whatever the draws.
\<close>

lemma superpose_Inr:
  "i + length ker \<le> length arr \<Longrightarrow>
   \<exists>arr'. superpose a arr i ker = Inr arr' \<and> length arr' = length arr"
proof (induction ker arbitrary: arr i)
  case Nil
  show ?case by simp
next
  case (Cons x ker)
  from Cons.prems have i: "i < length arr"
    and r: "Suc i + length ker \<le> length (arr[i := arr ! i + x])" by simp_all
  from Cons.IH [OF r] i show ?case by simp
qed

lemma simulate_body_in_bounds:
  assumes t: "t < T_ind - 1"
    and len: "length (sim_V s) = T_ind" "length I = T_ind" "length (sim_spks s) = T_ind"
      "length (sim_eta_sum s) = T_ind + 2 * length p_eta"
      "length (sim_gamma_sum s) = T_ind + 2 * length p_gamma"
    and ke: "p_eta = [] \<or> Tref_i \<le> length p_eta + 1"
    and kg: "p_gamma = [] \<or> Tref_i \<le> length p_gamma + 1"
  shows "\<exists>skip s'. simulate_body m Tref_i p_eta p_gamma T_ind I r t s = Inr (skip, s')
           \<and> length (sim_V s') = T_ind \<and> length (sim_spks s') = T_ind
           \<and> length (sim_eta_sum s') = T_ind + 2 * length p_eta
           \<and> length (sim_gamma_sum s') = T_ind + 2 * length p_gamma"
proof -
  have e: "\<exists>arr'. superpose ''eta_sum'' (sim_eta_sum s) (t + Tref_i + 1) p_eta = Inr arr'
             \<and> length arr' = length (sim_eta_sum s)"
  proof (cases "p_eta = []")
    case True
    then show ?thesis by simp
  next
    case False
    with ke t len show ?thesis by (intro superpose_Inr) simp
  qed
  have g: "\<exists>arr'. superpose ''gamma_sum'' (sim_gamma_sum s) (t + Tref_i + 1) p_gamma = Inr arr'
             \<and> length arr' = length (sim_gamma_sum s)"
  proof (cases "p_gamma = []")
    case True
    then show ?thesis by simp
  next
    case False
    with kg t len show ?thesis by (intro superpose_Inr) simp
  qed
  from e g t len show ?thesis
    by (auto simp: simulate_body_def integrate_voltage_def bind_err_def rd_def wr_def Let_def)
qed

lemma simulate_loop_in_bounds:
  assumes "length (sim_V s) = T_ind" "length I = T_ind" "length (sim_spks s) = T_ind"
      "length (sim_eta_sum s) = T_ind + 2 * length p_eta"
      "length (sim_gamma_sum s) = T_ind + 2 * length p_gamma"
    and "p_eta = [] \<or> Tref_i \<le> length p_eta + 1"
    and "p_gamma = [] \<or> Tref_i \<le> length p_gamma + 1"
  shows "\<exists>s'. simulate_loop m Tref_i p_eta p_gamma T_ind I rnd k t s = Inr s'
           \<and> length (sim_V s') = T_ind"
  using assms
proof (induction m Tref_i p_eta p_gamma T_ind I rnd k t s rule: simulate_loop.induct)
  case (1 m Tref_i p_eta p_gamma T_ind I rnd k t s)
  show ?case
  proof (cases "t < T_ind - 1")
    case False
    with "1.prems" show ?thesis by (simp add: simulate_loop.simps)
  next
    case True
    from simulate_body_in_bounds [OF True "1.prems", of m "rnd k"]
    obtain skip s' where b: "simulate_body m Tref_i p_eta p_gamma T_ind I (rnd k) t s = Inr (skip, s')"
      and l: "length (sim_V s') = T_ind" "length (sim_spks s') = T_ind"
        "length (sim_eta_sum s') = T_ind + 2 * length p_eta"
        "length (sim_gamma_sum s') = T_ind + 2 * length p_gamma"
      by blast
    have "\<exists>s''. simulate_loop m Tref_i p_eta p_gamma T_ind I rnd (Suc k) (t + skip + 1) s' = Inr s''
              \<and> length (sim_V s'') = T_ind"
      using "1.prems" l by (intro "1.IH" [OF True b refl]) auto
    then show ?thesis
      using True b by (simp add: simulate_loop.simps [of m Tref_i p_eta p_gamma T_ind I rnd k t s])
  qed
qed

lemma simulate_in_bounds:
  assumes "I \<noteq> []" "0 < dt m" "0 \<le> Tref m"
    and "p_eta = [] \<or> nat (Tref_ind m) \<le> length p_eta + 1"
    and "p_gamma = [] \<or> nat (Tref_ind m) \<le> length p_gamma + 1"
  shows "\<exists>res. simulate m p_eta p_gamma rnd I V0 = Inr res \<and> length (res_V res) = length I"
proof -
  let ?s0 = "\<lparr>sim_V = (replicate (length I) 0)[0 := V0], sim_spks = replicate (length I) 0,
              sim_eta_sum = replicate (length I + 2 * length p_eta) 0,
              sim_gamma_sum = replicate (length I + 2 * length p_gamma) 0\<rparr>"
  obtain s' where
    l: "simulate_loop m (nat (Tref_ind m)) p_eta p_gamma (length I) I rnd 0 0 ?s0 = Inr s'"
    and lv: "length (sim_V s') = length I"
    using simulate_loop_in_bounds [of ?s0 "length I" I p_eta p_gamma "nat (Tref_ind m)" m rnd 0 0]
      assms(4,5)
    by auto
  show ?thesis
    using l lv assms(1-3)
    by (auto simp: simulate_def Let_def bind_err_def)
qed

subsection \<open>fitVoltageReset\<close>

lemma collect_spike_shapes_eq:
  "collect_spike_shapes trs (support, avgs, nb)
     = ((if contributing trs = [] then support
         else Some (fst (averageSpikeShape (last (contributing trs))))),
        avgs @ map (\<lambda>tr. fst (snd (averageSpikeShape tr))) (contributing trs),
        nb + sum_list (map (\<lambda>tr. snd (snd (averageSpikeShape tr))) (contributing trs)))"
proof (induction trs arbitrary: support avgs nb)
  case Nil
  show ?case by (simp add: contributing_def)
next
  case (Cons tr trs)
  show ?case
    by (cases "averageSpikeShape tr") (simp add: Cons.IH contributing_def)
qed

lemma first_index_ge_least:
  assumes "k < length support" "x \<le> support ! k" "\<forall>j < k. support ! j < x"
  shows "first_index_ge support x = Inr k"
proof -
  have "[0..<length support] = [0..<k] @ k # [Suc k..<length support]"
    using assms(1) by (metis upt_conv_Cons upt_add_eq_append le_add_diff_inverse less_imp_le_nat zero_le)
  moreover have "filter (\<lambda>j. x \<le> support ! j) [0..<k] = []"
    using assms(3) by (auto simp: filter_empty_conv)
  ultimately show ?thesis
    using assms(2) by (simp add: first_index_ge_def)
qed

lemma mean_axis0_equal_lengths:
  assumes "rows \<noteq> []" "\<forall>r \<in> set rows. length r = n"
  shows "mean_axis0 rows
           = Inr (map (\<lambda>j. sum_list (map (\<lambda>row. row ! j) rows) / real (length rows)) [0..<n])"
  using assms by (cases rows) (auto simp: mean_axis0_def)

text \<open>
  C8. Let \<open>sel\<close> be the used training traces with at least one spike, in their order,
  all with spike-triggered averages of the same length \<open>n\<close>, and let \<open>k\<close> be the
  first index at which the support (that of the last trace of \<open>sel\<close>) reaches
  \<open>Tref\<close>. Then the stage stores the mean of the averages in which every trace
  counts once, whatever its number of spikes, stores the support, and sets \<open>Vr\<close> to
  the value of that mean at \<open>k\<close>.
\<close>

theorem fitVoltageReset_average:
  assumes sel: "sel = filter (\<lambda>tr. useTrace tr \<and> length (spks tr) > 0) (trainingset_traces e)"
    and ne: "sel \<noteq> []"
    and shapes: "\<forall>tr \<in> set sel. length (fst (snd (averageSpikeShape tr))) = n"
    and sup: "support = fst (averageSpikeShape (last sel))"
    and k: "k < length support" "k < n" "Tref' \<le> support ! k" "\<forall>j < k. support ! j < Tref'"
  shows "\<exists>m'. fitVoltageReset m e Tref' = Inr m'
           \<and> avg_spike_shape m'
               = map (\<lambda>j. (\<Sum>tr\<leftarrow>sel. fst (snd (averageSpikeShape tr)) ! j) / real (length sel))
                   [0..<n]
           \<and> avg_spike_shape_support m' = support
           \<and> Vr m' = (\<Sum>tr\<leftarrow>sel. fst (snd (averageSpikeShape tr)) ! k) / real (length sel)
           \<and> dt m' = experiment_dt e \<and> Tref m' = Tref'"
proof -
  let ?rows = "map (\<lambda>tr. fst (snd (averageSpikeShape tr))) sel"
  have c: "collect_spike_shapes (trainingset_traces e) (None, [], 0)
             = (Some support, ?rows, sum_list (map (\<lambda>tr. snd (snd (averageSpikeShape tr))) sel))"
    using ne sup unfolding sel by (simp add: collect_spike_shapes_eq contributing_def)
  have mean: "mean_axis0 ?rows
           = Inr (map (\<lambda>j. sum_list (map (\<lambda>row. row ! j) ?rows) / real (length ?rows)) [0..<n])"
    using ne shapes by (intro mean_axis0_equal_lengths) auto
  have f: "first_index_ge support Tref' = Inr k"
    using k by (intro first_index_ge_least) auto
  show ?thesis
    using k(2) by (simp add: fitVoltageReset_def c mean f bind_err_def o_def)
qed


theorem fitVoltageReset_average_witness:
  "\<exists>m'. fitVoltageReset (GIF_init (1 / 10) [] [])
          \<lparr>experiment_dt = 2, trainingset_traces =
             [\<lparr>useTrace = True, spks = [10], averageSpikeShape = ([0, 2, 4, 6], [1, 2, 3, 4], 1)\<rparr>,
              \<lparr>useTrace = False, spks = [7], averageSpikeShape = ([0, 2, 4, 6], [9, 9, 9, 9], 1)\<rparr>,
              \<lparr>useTrace = True, spks = [5, 20, 30], averageSpikeShape = ([0, 2, 4, 6], [3, 6, 1, 0], 3)\<rparr>,
              \<lparr>useTrace = True, spks = [], averageSpikeShape = ([], [], 0)\<rparr>]\<rparr> 4 = Inr m'
        \<and> avg_spike_shape m' = [2, 4, 2, 2] \<and> avg_spike_shape_support m' = [0, 2, 4, 6]
        \<and> Vr m' = 2 \<and> dt m' = 2 \<and> Tref m' = 4"
proof -
  let ?t1 = "\<lparr>useTrace = True, spks = [10], averageSpikeShape = ([0, 2, 4, 6], [1, 2, 3, 4], 1)\<rparr>"
  let ?t2 = "\<lparr>useTrace = False, spks = [7], averageSpikeShape = ([0, 2, 4, 6], [9, 9, 9, 9], 1)\<rparr>"
  let ?t3 = "\<lparr>useTrace = True, spks = [5, 20, 30], averageSpikeShape = ([0, 2, 4, 6], [3, 6, 1, 0], 3)\<rparr>"
  let ?t4 = "\<lparr>useTrace = True, spks = [], averageSpikeShape = ([], [], 0)\<rparr>"
  let ?e = "\<lparr>experiment_dt = 2, trainingset_traces = [?t1, ?t2, ?t3, ?t4]\<rparr>"
  have h1: "[?t1, ?t3] = filter (\<lambda>tr. useTrace tr \<and> length (spks tr) > 0) (trainingset_traces ?e)"
    by simp
  have h2: "[?t1, ?t3] \<noteq> []" by simp
  have h3: "\<forall>tr \<in> set [?t1, ?t3]. length (fst (snd (averageSpikeShape tr))) = 4" by simp
  have h4: "[0, 2, 4, 6 :: real] = fst (averageSpikeShape (last [?t1, ?t3]))" by simp
  have h5: "2 < length [0, 2, 4, 6 :: real]" "(2::nat) < 4" "(4::real) \<le> [0, 2, 4, 6] ! 2"
    "\<forall>j < 2. [0, 2, 4, 6 :: real] ! j < 4"
    by (simp_all add: nth_Cons' less_Suc_eq numeral_2_eq_2)
  from fitVoltageReset_average [OF h1 h2 h3 h4 h5, of "GIF_init (1 / 10) [] []"]
  show ?thesis by (simp add: upt_rec nth_Cons')
qed

subsection \<open>The forced-spike engine\<close>

text \<open>The passes of the C loop, one at a time.\<close>

lemma forceSpikes_loop_done:
  "\<not> t < T_ind - 1 \<Longrightarrow>
   forceSpikes_loop m Tref_i T_ind I eta_sum mem n t next_spike spks_cnt V oob = Inr (V, oob)"
  by (simp add: forceSpikes_loop.simps)

lemma forceSpikes_loop_plain_step:
  assumes "t < T_ind - 1" "int t \<noteq> next_spike"
    and "length V = T_ind" "length I = T_ind" "T_ind \<le> length eta_sum"
  shows "forceSpikes_loop m Tref_i T_ind I eta_sum mem n t next_spike spks_cnt V oob
           = forceSpikes_loop m Tref_i T_ind I eta_sum mem n (t + 1) next_spike spks_cnt
               (V[t + 1 := euler m (V ! t) (I ! t) (eta_sum ! t)]) oob"
proof -
  have "integrate_voltage m I eta_sum V t = Inr (V[t + 1 := euler m (V ! t) (I ! t) (eta_sum ! t)])"
    using assms by (intro integrate_voltage_Inr) auto
  then show ?thesis
    using assms(1,2)
    by (simp add: forceSpikes_loop.simps [of m Tref_i T_ind I eta_sum mem n t next_spike spks_cnt V oob])
qed

lemma forceSpikes_loop_spike_step:
  assumes "t < T_ind - 1" "int t = next_spike" "0 < t" "spks_cnt + 1 < length mem"
    and "length V = T_ind" "length I = T_ind" "T_ind \<le> length eta_sum"
  shows "forceSpikes_loop m Tref_i T_ind I eta_sum mem n t next_spike spks_cnt V oob
           = forceSpikes_loop m Tref_i T_ind I eta_sum mem n t
               (next_spike_value T_ind (mem ! (spks_cnt + 1) + int Tref_i)) (spks_cnt + 1)
               (V[t + 1 := euler m (V ! t) (I ! t) (eta_sum ! t), t - 1 := 0, t := Vr m])
               (if n \<le> spks_cnt + 1 then oob @ [spks_cnt + 1] else oob)"
proof -
  let ?V1 = "V[t + 1 := euler m (V ! t) (I ! t) (eta_sum ! t)]"
  have iv: "integrate_voltage m I eta_sum V t = Inr ?V1"
    using assms by (intro integrate_voltage_Inr) auto
  have w1: "wr ''V'' ?V1 (t - 1) 0 = Inr (?V1[t - 1 := 0])"
    using assms(1,5) by (simp add: wr_def)
  have w2: "wr ''V'' (?V1[t - 1 := 0]) t (Vr m) = Inr (?V1[t - 1 := 0, t := Vr m])"
    using assms(1,5) by (simp add: wr_def)
  have t0: "t \<noteq> 0" using assms(3) by simp
  show ?thesis
    by (subst forceSpikes_loop.simps)
       (simp only: assms(1,2,4) iv w1 w2 t0 if_True if_False sum.case simp_thms)
qed

lemma forceSpikes_loop_read_fault:
  assumes "t < T_ind - 1" "int t = next_spike" "\<not> spks_cnt + 1 < length mem"
    and "length V = T_ind" "length I = T_ind" "T_ind \<le> length eta_sum"
  shows "forceSpikes_loop m Tref_i T_ind I eta_sum mem n t next_spike spks_cnt V oob
           = Inl (OOBRead ''spks_i'' (spks_cnt + 1))"
proof -
  have "integrate_voltage m I eta_sum V t = Inr (V[t + 1 := euler m (V ! t) (I ! t) (eta_sum ! t)])"
    using assms by (intro integrate_voltage_Inr) auto
  then show ?thesis
    using assms
    by (simp add: forceSpikes_loop.simps [of m Tref_i T_ind I eta_sum mem n t next_spike spks_cnt V oob])
qed

lemma forceSpikes_loop_plain_run:
  assumes "t \<le> t'" "t' \<le> T_ind - 1" "\<forall>u. t \<le> u \<and> u < t' \<longrightarrow> int u \<noteq> next_spike"
    and "length V = T_ind" "length I = T_ind" "T_ind \<le> length eta_sum"
  shows "\<exists>V'. forceSpikes_loop m Tref_i T_ind I eta_sum mem n t next_spike spks_cnt V oob
                = forceSpikes_loop m Tref_i T_ind I eta_sum mem n t' next_spike spks_cnt V' oob
              \<and> length V' = T_ind \<and> (\<forall>j \<le> t. V' ! j = V ! j)"
  using assms
proof (induction "t' - t" arbitrary: t V)
  case 0
  then show ?case by auto
next
  case (Suc d)
  let ?V1 = "V[t + 1 := euler m (V ! t) (I ! t) (eta_sum ! t)]"
  from Suc.hyps(2) Suc.prems have lt: "t < T_ind - 1" and ne: "int t \<noteq> next_spike" by auto
  have step: "forceSpikes_loop m Tref_i T_ind I eta_sum mem n t next_spike spks_cnt V oob
           = forceSpikes_loop m Tref_i T_ind I eta_sum mem n (t + 1) next_spike spks_cnt ?V1 oob"
    using lt ne Suc.prems by (intro forceSpikes_loop_plain_step) auto
  have "\<exists>V'. forceSpikes_loop m Tref_i T_ind I eta_sum mem n (t + 1) next_spike spks_cnt ?V1 oob
                = forceSpikes_loop m Tref_i T_ind I eta_sum mem n t' next_spike spks_cnt V' oob
              \<and> length V' = T_ind \<and> (\<forall>j \<le> t + 1. V' ! j = ?V1 ! j)"
    using Suc.hyps(2) Suc.prems by (intro Suc.hyps(1)) auto
  then obtain V' where
    r: "forceSpikes_loop m Tref_i T_ind I eta_sum mem n (t + 1) next_spike spks_cnt ?V1 oob
          = forceSpikes_loop m Tref_i T_ind I eta_sum mem n t' next_spike spks_cnt V' oob"
    and l: "length V' = T_ind" and k: "\<forall>j \<le> t + 1. V' ! j = ?V1 ! j"
    by blast
  have "\<forall>j \<le> t. V' ! j = V ! j" using k by auto
  with step r l show ?case by auto
qed


lemma slice_add_Inr:
  assumes "a + length ker \<le> length arr"
  shows "\<exists>arr'. slice_add arr a ker = Inr arr' \<and> length arr' = length arr"
proof -
  have "min a (length arr) = a" "min (a + length ker) (length arr) = a + length ker"
    using assms by simp_all
  then show ?thesis
    using assms by (simp add: slice_add_def Let_def)
qed

lemma add_eta_at_spikes_Inr:
  "\<forall>s \<in> set ss. nat s + 1 + Tref_i + length ker \<le> length arr \<Longrightarrow>
   \<exists>arr'. add_eta_at_spikes arr Tref_i ker ss = Inr arr' \<and> length arr' = length arr"
proof (induction ss arbitrary: arr)
  case Nil
  show ?case by simp
next
  case (Cons s ss)
  from Cons.prems have "nat s + 1 + Tref_i + length ker \<le> length arr" by simp
  from slice_add_Inr [OF this]
  obtain arr1 where a: "slice_add arr (nat s + 1 + Tref_i) ker = Inr arr1"
    and l: "length arr1 = length arr" by blast
  from Cons.prems l have "\<forall>s \<in> set ss. nat s + 1 + Tref_i + length ker \<le> length arr1" by simp
  from Cons.IH [OF this] a l show ?case by (simp add: bind_err_def)
qed

lemma forced_size:
  "p_T + l + Tref_i \<le> nat (py_int (real p_T + 1.1 * real l + real Tref_i))"
proof -
  have "real (p_T + l + Tref_i) \<le> real p_T + 1.1 * real l + real Tref_i" by simp
  then have "int (p_T + l + Tref_i) \<le> \<lfloor>real p_T + 1.1 * real l + real Tref_i\<rfloor>"
    by (simp add: le_floor_iff)
  moreover have "0 \<le> real p_T + 1.1 * real l + real Tref_i" by simp
  ultimately show ?thesis by (simp add: py_int_def le_nat_iff)
qed

lemma forced_eta_sum_Inr:
  assumes "\<forall>s \<in> set spks_i. nat s + 1 \<le> p_T"
  shows "\<exists>es. forced_eta_sum p_T Tref_i p_eta spks_i = Inr es \<and> length es = p_T"
proof -
  let ?N = "nat (py_int (real p_T + 1.1 * real (length p_eta) + real Tref_i))"
  have N: "p_T + length p_eta + Tref_i \<le> ?N" by (rule forced_size)
  have "\<forall>s \<in> set spks_i. nat s + 1 + Tref_i + length p_eta \<le> length (replicate ?N (0::real))"
  proof
    fix s assume "s \<in> set spks_i"
    with assms have "nat s + 1 \<le> p_T" by blast
    with N show "nat s + 1 + Tref_i + length p_eta \<le> length (replicate ?N (0::real))" by simp
  qed
  from add_eta_at_spikes_Inr [OF this]
  obtain arr where a: "add_eta_at_spikes (replicate ?N 0) Tref_i p_eta spks_i = Inr arr"
    and l: "length arr = ?N" by auto
  from N l have "length (take p_T arr) = p_T" by simp
  with a show ?thesis by (simp add: forced_eta_sum_def bind_err_def)
qed

lemma Tref_ind_nonneg: "0 < dt m \<Longrightarrow> 0 \<le> Tref m \<Longrightarrow> 0 \<le> Tref_ind m"
  by (simp add: Tref_ind_def py_int_def fl_nonneg)

lemma p_Tref_i_nonneg: "0 < dt m \<Longrightarrow> 0 \<le> Tref m \<Longrightarrow> 0 \<le> p_Tref_i m"
  by (simp add: p_Tref_i_def py_int_def fl_nonneg)

text \<open>A sum that is a sample index of the input is not changed by the assignment.\<close>

lemma next_spike_value_id:
  "0 \<le> x \<Longrightarrow> x < int T_ind \<Longrightarrow> next_spike_value T_ind x = x"
  by (simp add: next_spike_value_def c_int_def)

lemma round_nonneg: "0 \<le> (x::real) \<Longrightarrow> 0 \<le> round x"
  by (simp add: round_def)

text \<open>
  One supplied spike whose reset falls at sample \<open>p\<close> inside the window. The loop
  integrates up to \<open>p\<close>, reads \<open>spks_i[1]\<close> behind the array (the word \<open>g\<close>),
  sets \<open>V[p-1] = 0\<close> and \<open>V[p] = Vr\<close>, repeats the pass at \<open>p\<close> and goes on to the
  end, provided the value that \<open>next_spike\<close> takes from \<open>g + Tref_ind\<close> is not a
  sample that is still to come.
\<close>

lemma forceSpikes_loop_single_spike:
  assumes p: "0 < p" "p + 1 < T_ind"
    and len: "length V = T_ind" "length I = T_ind" "T_ind \<le> length eta_sum"
    and g: "\<forall>u. p \<le> u \<and> u + 1 < T_ind \<longrightarrow> int u \<noteq> next_spike_value T_ind (g + int Tref_i)"
  shows "\<exists>V'. forceSpikes_loop m Tref_i T_ind I eta_sum (s # g # rest) 1 0 (int p) 0 V []
                 = Inr (V', [1])
              \<and> length V' = T_ind \<and> V' ! p = Vr m
              \<and> V' ! (p + 1) = euler m (Vr m) (I ! p) (eta_sum ! p)"
proof -
  let ?L = "forceSpikes_loop m Tref_i T_ind I eta_sum (s # g # rest) 1"
  let ?g = "next_spike_value T_ind (g + int Tref_i)"
  have "\<exists>V1. ?L 0 (int p) 0 V [] = ?L p (int p) 0 V1 [] \<and> length V1 = T_ind
              \<and> (\<forall>j \<le> 0. V1 ! j = V ! j)"
    using p len by (intro forceSpikes_loop_plain_run) auto
  then obtain V1 where r1: "?L 0 (int p) 0 V [] = ?L p (int p) 0 V1 []"
    and l1: "length V1 = T_ind" by blast
  let ?V2 = "V1[p + 1 := euler m (V1 ! p) (I ! p) (eta_sum ! p), p - 1 := 0, p := Vr m]"
  have r2: "?L p (int p) 0 V1 []
              = ?L p (next_spike_value T_ind ((s # g # rest) ! (0 + 1) + int Tref_i)) (0 + 1) ?V2
                  (if 1 \<le> (0::nat) + 1 then [] @ [0 + 1] else [])"
    using p l1 len by (intro forceSpikes_loop_spike_step) auto
  have l2: "length ?V2 = T_ind" using l1 by simp
  have v2: "?V2 ! p = Vr m" using l1 p by simp
  let ?V3 = "?V2[p + 1 := euler m (?V2 ! p) (I ! p) (eta_sum ! p)]"
  have r3: "?L p ?g 1 ?V2 [1] = ?L (p + 1) ?g 1 ?V3 [1]"
    using p l2 len g by (intro forceSpikes_loop_plain_step) auto
  have l3: "length ?V3 = T_ind" using l1 by simp
  have "\<exists>V4. ?L (p + 1) ?g 1 ?V3 [1] = ?L (T_ind - 1) ?g 1 V4 [1]
              \<and> length V4 = T_ind \<and> (\<forall>j \<le> p + 1. V4 ! j = ?V3 ! j)"
    using p l3 len g by (intro forceSpikes_loop_plain_run) auto
  then obtain V4 where r4: "?L (p + 1) ?g 1 ?V3 [1] = ?L (T_ind - 1) ?g 1 V4 [1]"
    and l4: "length V4 = T_ind" and k4: "\<forall>j \<le> p + 1. V4 ! j = ?V3 ! j" by blast
  have r5: "?L (T_ind - 1) ?g 1 V4 [1] = Inr (V4, [1])"
    by (intro forceSpikes_loop_done) simp
  have "?L 0 (int p) 0 V [] = Inr (V4, [1])"
    using r1 r2 r3 r4 r5 by simp
  moreover have "V4 ! p = Vr m"
    using k4 v2 l1 p by simp
  moreover have "V4 ! (p + 1) = euler m (Vr m) (I ! p) (eta_sum ! p)"
    using k4 v2 l1 p by simp
  ultimately show ?thesis using l4 by blast
qed


lemma forceSpikes_single_spike:
  assumes m: "0 < dt m" "0 \<le> Tref m" and ts: "0 \<le> ts"
    and p: "p = nat (round (ts / dt m) + Tref_ind m)" "0 < p" "p + 1 < length I"
    and g: "\<forall>u. p \<le> u \<and> u + 1 < length I
              \<longrightarrow> int u \<noteq> next_spike_value (length I) (g + Tref_ind m)"
  shows "\<exists>res. simulateDeterministic_forceSpikes m p_eta (g # rest) I V0 [ts] = Inr res
           \<and> length (ret_V res) = length I
           \<and> ret_V res ! p = Vr m
           \<and> ret_V res ! (p + 1) = euler m (Vr m) (I ! p) (ret_eta_sum res ! p)
           \<and> oob_reads res = [1]
           \<and> forced_eta_sum (length I) (nat (p_Tref_i m)) p_eta (timeToIndex [ts] (dt m))
               = Inr (ret_eta_sum res)"
proof -
  have "0 \<le> round (ts / dt m)" using m ts by (intro round_nonneg) simp
  then obtain sn where sn: "round (ts / dt m) = int sn" using zero_le_imp_eq_int by blast
  obtain Ti where Ti: "Tref_ind m = int Ti"
    using Tref_ind_nonneg [OF m] zero_le_imp_eq_int by blast
  have ip: "p = sn + Ti" using p(1) sn Ti by (simp add: nat_int_add)
  have "\<forall>s \<in> set [int sn]. nat s + 1 \<le> length I" using ip p(3) by simp
  from forced_eta_sum_Inr [OF this]
  obtain es where es: "forced_eta_sum (length I) (nat (p_Tref_i m)) p_eta [int sn] = Inr es"
    and les: "length es = length I" by blast
  have g': "\<forall>u. p \<le> u \<and> u + 1 < length I
              \<longrightarrow> int u \<noteq> next_spike_value (length I) (g + int Ti)"
    using g Ti by simp
  have first: "next_spike_value (length I) (int sn + int Ti) = int p"
    using ip p(3) by (intro trans [OF next_spike_value_id]) auto
  have "\<exists>V'. forceSpikes_loop m Ti (length I) I es (int sn # g # rest) 1 0 (int p) 0
                 ((replicate (length I) 0)[0 := V0]) [] = Inr (V', [1])
              \<and> length V' = length I \<and> V' ! p = Vr m
              \<and> V' ! (p + 1) = euler m (Vr m) (I ! p) (es ! p)"
    using p(2,3) les g' by (intro forceSpikes_loop_single_spike) auto
  then obtain V' where
    l: "forceSpikes_loop m Ti (length I) I es (int sn # g # rest) 1 0
          (next_spike_value (length I) (int sn + int Ti)) 0
          ((replicate (length I) 0)[0 := V0]) [] = Inr (V', [1])"
    and v: "length V' = length I" "V' ! p = Vr m"
      "V' ! (p + 1) = euler m (Vr m) (I ! p) (es ! p)"
    unfolding first by auto
  have ne: "I \<noteq> []" using p(3) by auto
  have "simulateDeterministic_forceSpikes m p_eta (g # rest) I V0 [ts]
          = Inr \<lparr>ret_time = map (\<lambda>i. real i * dt m) [0..<length I], ret_V = V',
                 ret_eta_sum = es, oob_reads = [1]\<rparr>"
    using m ts ne
    by (simp add: simulateDeterministic_forceSpikes_def Let_def timeToIndex_def sn Ti es
          l [simplified] bind_err_def)
  with v es show ?thesis by (simp add: timeToIndex_def sn Ti)
qed


text \<open>
  With nothing readable behind \<open>spks_i\<close>: when the spike indices ascend and the reset
  of the last one lies inside the window, the loop consumes them in order and then reads
  \<open>spks_i\<close> at its length.
\<close>

lemma forceSpikes_loop_runs_off:
  assumes "sorted mem" "spks_cnt < length mem"
    and "next_spike = mem ! spks_cnt + int Tref_i" "int t \<le> next_spike" "0 < next_spike"
    and "last mem + int Tref_i < int T_ind - 1"
    and "length V = T_ind" "length I = T_ind" "T_ind \<le> length eta_sum"
  shows "forceSpikes_loop m Tref_i T_ind I eta_sum mem n t next_spike spks_cnt V oob
           = Inl (OOBRead ''spks_i'' (length mem))"
  using assms
proof (induction "length mem - spks_cnt" arbitrary: spks_cnt t next_spike V oob)
  case 0
  then show ?case by simp
next
  case (Suc d)
  let ?L = "forceSpikes_loop m Tref_i T_ind I eta_sum mem n"
  obtain p where p: "next_spike = int p"
    using Suc.prems(5) zero_le_imp_eq_int [of next_spike] by auto
  have ne: "mem \<noteq> []" using Suc.prems(2) by auto
  have "mem ! spks_cnt \<le> mem ! (length mem - 1)"
    using Suc.prems(1,2) by (intro sorted_nth_mono) auto
  then have "mem ! spks_cnt \<le> last mem" using ne by (simp add: last_conv_nth)
  with Suc.prems(3,6) p have pT: "p < T_ind - 1" by linarith
  have tp: "t \<le> p" "0 < p" using Suc.prems(4,5) p by auto
  have "\<exists>V1. ?L t next_spike spks_cnt V oob = ?L p next_spike spks_cnt V1 oob
              \<and> length V1 = T_ind \<and> (\<forall>j \<le> t. V1 ! j = V ! j)"
    using tp pT p Suc.prems(7-9) by (intro forceSpikes_loop_plain_run) auto
  then obtain V1 where r1: "?L t next_spike spks_cnt V oob = ?L p next_spike spks_cnt V1 oob"
    and l1: "length V1 = T_ind" by blast
  show ?case
  proof (cases "spks_cnt + 1 < length mem")
    case False
    have "?L p next_spike spks_cnt V1 oob = Inl (OOBRead ''spks_i'' (spks_cnt + 1))"
      using pT p False l1 Suc.prems(8,9) by (intro forceSpikes_loop_read_fault) auto
    moreover have "spks_cnt + 1 = length mem" using False Suc.prems(2) by simp
    ultimately show ?thesis using r1 by simp
  next
    case True
    let ?V2 = "V1[p + 1 := euler m (V1 ! p) (I ! p) (eta_sum ! p), p - 1 := 0, p := Vr m]"
    let ?oob = "if n \<le> spks_cnt + 1 then oob @ [spks_cnt + 1] else oob"
    have mono: "mem ! spks_cnt \<le> mem ! (spks_cnt + 1)"
      using Suc.prems(1) True by (intro sorted_nth_mono) auto
    have "mem ! (spks_cnt + 1) \<le> mem ! (length mem - 1)"
      using Suc.prems(1) True by (intro sorted_nth_mono) auto
    then have "mem ! (spks_cnt + 1) \<le> last mem" using ne by (simp add: last_conv_nth)
    with mono Suc.prems(3,5,6)
    have rng: "0 \<le> mem ! (spks_cnt + 1) + int Tref_i"
      "mem ! (spks_cnt + 1) + int Tref_i < int T_ind" by linarith+
    have "?L p next_spike spks_cnt V1 oob
                = ?L p (next_spike_value T_ind (mem ! (spks_cnt + 1) + int Tref_i))
                    (spks_cnt + 1) ?V2 ?oob"
      using pT p tp True l1 Suc.prems(8,9) by (intro forceSpikes_loop_spike_step) auto
    then have r2: "?L p next_spike spks_cnt V1 oob
                = ?L p (mem ! (spks_cnt + 1) + int Tref_i) (spks_cnt + 1) ?V2 ?oob"
      by (simp only: next_spike_value_id [OF rng])
    have "?L p (mem ! (spks_cnt + 1) + int Tref_i) (spks_cnt + 1) ?V2 ?oob
            = Inl (OOBRead ''spks_i'' (length mem))"
    proof (rule Suc.hyps(1))
      show "d = length mem - (spks_cnt + 1)" using Suc.hyps(2) by simp
      show "sorted mem" by (rule Suc.prems(1))
      show "spks_cnt + 1 < length mem" by (rule True)
      show "mem ! (spks_cnt + 1) + int Tref_i = mem ! (spks_cnt + 1) + int Tref_i" by simp
      show "int p \<le> mem ! (spks_cnt + 1) + int Tref_i"
        using mono p Suc.prems(3) by simp
      show "0 < mem ! (spks_cnt + 1) + int Tref_i"
        using mono Suc.prems(3,5) by simp
      show "last mem + int Tref_i < int T_ind - 1" by (rule Suc.prems(6))
      show "length ?V2 = T_ind" using l1 by simp
      show "length I = T_ind" by (rule Suc.prems(8))
      show "T_ind \<le> length eta_sum" by (rule Suc.prems(9))
    qed
    with r1 r2 show ?thesis by simp
  qed
qed


lemma sorted_timeToIndex:
  assumes "0 < d" "sorted x_t"
  shows "sorted (timeToIndex x_t d)"
proof -
  have "\<And>x y. x \<le> y \<Longrightarrow> round (x / d) \<le> round (y / d)"
    using assms(1) by (intro round_mono divide_right_mono) simp_all
  then have "sorted_wrt (\<lambda>x y. round (x / d) \<le> round (y / d)) x_t"
    using assms(2) by (auto intro: sorted_wrt_mono_rel)
  then show ?thesis by (simp add: timeToIndex_def sorted_map)
qed

lemma sorted_le_last:
  assumes "sorted xs" "x \<in> set xs"
  shows "x \<le> last (xs :: int list)"
proof -
  from assms(2) obtain i where i: "i < length xs" "xs ! i = x"
    by (auto simp: in_set_conv_nth)
  then have "xs ! i \<le> xs ! (length xs - 1)"
    using assms(1) by (intro sorted_nth_mono) auto
  moreover have "xs \<noteq> []" using i by auto
  ultimately show ?thesis using i by (simp add: last_conv_nth)
qed

lemma sorted_hd_le: "sorted xs \<Longrightarrow> x \<in> set xs \<Longrightarrow> hd xs \<le> (x :: real)"
  by (cases xs) auto

lemma forceSpikes_faults_behind_spks_i:
  assumes m: "0 < dt m" "0 \<le> Tref m" and I: "I \<noteq> []"
  shows "simulateDeterministic_forceSpikes m p_eta [] I V0 [] = Inl (OOBRead ''spks_i'' 0)
         \<and> (spk_times \<noteq> [] \<and> sorted spk_times \<and> 0 \<le> hd spk_times
              \<and> 0 < round (hd spk_times / dt m) + Tref_ind m
              \<and> round (last spk_times / dt m) + Tref_ind m < int (length I) - 1
             \<longrightarrow> simulateDeterministic_forceSpikes m p_eta [] I V0 spk_times
                   = Inl (OOBRead ''spks_i'' (length spk_times)))"
proof (intro conjI impI)
  show "simulateDeterministic_forceSpikes m p_eta [] I V0 [] = Inl (OOBRead ''spks_i'' 0)"
    using m I
    by (simp add: simulateDeterministic_forceSpikes_def Let_def timeToIndex_def
          forced_eta_sum_def bind_err_def)
next
  assume "spk_times \<noteq> [] \<and> sorted spk_times \<and> 0 \<le> hd spk_times
              \<and> 0 < round (hd spk_times / dt m) + Tref_ind m
              \<and> round (last spk_times / dt m) + Tref_ind m < int (length I) - 1"
  then have a: "spk_times \<noteq> []" "sorted spk_times" "0 \<le> hd spk_times"
    "0 < round (hd spk_times / dt m) + Tref_ind m"
    "round (last spk_times / dt m) + Tref_ind m < int (length I) - 1"
    by simp_all
  let ?idx = "timeToIndex spk_times (dt m)"
  obtain Ti where Ti: "Tref_ind m = int Ti"
    using Tref_ind_nonneg [OF m] zero_le_imp_eq_int by blast
  have pos: "\<forall>s \<in> set spk_times. 0 \<le> s"
  proof
    fix s assume "s \<in> set spk_times"
    from sorted_hd_le [OF a(2) this] a(3) show "0 \<le> s" by simp
  qed
  have srt: "sorted ?idx" using m(1) a(2) by (rule sorted_timeToIndex)
  have ne: "?idx \<noteq> []" using a(1) by (simp add: timeToIndex_def)
  have hd: "?idx ! 0 = round (hd spk_times / dt m)"
    using a(1) by (simp add: timeToIndex_def hd_conv_nth)
  have lst: "last ?idx = round (last spk_times / dt m)"
    using a(1) by (simp add: timeToIndex_def last_map)
  have "\<forall>s \<in> set ?idx. nat s + 1 \<le> length I"
  proof
    fix s assume "s \<in> set ?idx"
    with srt have "s \<le> last ?idx" by (rule sorted_le_last)
    with a(5) lst Ti have "s < int (length I) - 1" by simp
    moreover have "0 < length I" using I by simp
    ultimately show "nat s + 1 \<le> length I" by arith
  qed
  from forced_eta_sum_Inr [OF this]
  obtain es where es: "forced_eta_sum (length I) (nat (p_Tref_i m)) p_eta ?idx = Inr es"
    and les: "length es = length I" by blast
  have l0: "length ((replicate (length I) (0::real))[0 := V0]) = length I" by simp
  have nsp: "?idx ! 0 + int Ti = ?idx ! 0 + int Ti" by simp
  have c0: "(0::nat) < length ?idx" using ne by simp
  have t0: "int 0 \<le> ?idx ! 0 + int Ti" using a(4) hd Ti by simp
  have p0: "0 < ?idx ! 0 + int Ti" using a(4) hd Ti by simp
  have e0: "last ?idx + int Ti < int (length I) - 1" using a(5) lst Ti by simp
  have loop: "forceSpikes_loop m Ti (length I) I es ?idx (length ?idx) 0 (?idx ! 0 + int Ti) 0
          ((replicate (length I) 0)[0 := V0]) (if ?idx = [] then [0] else [])
          = Inl (OOBRead ''spks_i'' (length ?idx))"
    by (rule forceSpikes_loop_runs_off [OF srt c0 nsp t0 p0 e0 l0 refl]) (simp add: les)
  have len: "length ?idx = length spk_times" by (simp add: timeToIndex_def)
  have loop2: "forceSpikes_loop m Ti (length I) I es ?idx (length spk_times) 0
                 (?idx ! 0 + int Ti) 0 ((replicate (length I) 0)[0 := V0]) []
                 = Inl (OOBRead ''spks_i'' (length spk_times))"
    using loop len ne by simp
  have guard: "\<not> (dt m < 0 \<or> Tref m < 0 \<or> (\<exists>s \<in> set spk_times. s < 0))"
    using m pos by auto
  have dt0: "dt m \<noteq> 0" using m by simp
  have "?idx ! 0 \<le> last ?idx" using srt ne by (intro sorted_le_last) simp_all
  with p0 e0 have first: "next_spike_value (length I) (?idx ! 0 + int Ti) = ?idx ! 0 + int Ti"
    by (intro next_spike_value_id) linarith+
  show "simulateDeterministic_forceSpikes m p_eta [] I V0 spk_times
          = Inl (OOBRead ''spks_i'' (length spk_times))"
    unfolding simulateDeterministic_forceSpikes_def Let_def
    using I ne guard by (simp add: dt0 Ti es bind_err_def first loop2 len)
qed


text \<open>
  With words to read behind \<open>spks_i\<close>: the list of reads behind the array only
  grows, and a run that returns has read \<open>spks_i\<close> at its length.
\<close>

lemma forceSpikes_loop_oob_grows:
  "forceSpikes_loop m Tref_i T_ind I eta_sum mem n t next_spike spks_cnt V oob = Inr (V', oob')
   \<Longrightarrow> \<exists>zs. oob' = oob @ zs"
proof (induction m Tref_i T_ind I eta_sum mem n t next_spike spks_cnt V oob
       rule: forceSpikes_loop.induct)
  case (1 m Tref_i T_ind I eta_sum mem n t next_spike spks_cnt V oob)
  show ?case
  proof (cases "t < T_ind - 1")
    case False
    with "1.prems" show ?thesis by (simp add: forceSpikes_loop.simps)
  next
    case True
    note unf = forceSpikes_loop.simps [of m Tref_i T_ind I eta_sum mem n t next_spike spks_cnt V oob]
    show ?thesis
    proof (cases "integrate_voltage m I eta_sum V t")
      case (Inl e)
      with True "1.prems" show ?thesis by (simp add: unf)
    next
      case (Inr V1)
      show ?thesis
      proof (cases "int t = next_spike")
        case False
        from "1.prems" True Inr False
        have "forceSpikes_loop m Tref_i T_ind I eta_sum mem n (t + 1) next_spike spks_cnt V1 oob
                = Inr (V', oob')" by (simp add: unf)
        from "1.IH"(2) [OF True Inr False this] show ?thesis .
      next
        case spike: True
        show ?thesis
        proof (cases "spks_cnt + 1 < length mem")
          case False
          with "1.prems" True Inr spike show ?thesis by (simp add: unf)
        next
          case rd: True
          show ?thesis
          proof (cases "if t = 0 then Inl (OOBWrite ''V'' (- 1)) else wr ''V'' V1 (t - 1) 0")
            case (Inl e)
            with "1.prems" True Inr spike rd show ?thesis by (simp add: unf)
          next
            case w1: (Inr V2)
            show ?thesis
            proof (cases "wr ''V'' V2 t (Vr m)")
              case (Inl e)
              with "1.prems" True Inr spike rd w1 show ?thesis by (simp add: unf)
            next
              case w2: (Inr V3)
              from "1.prems" True Inr spike rd w1 w2
              have "forceSpikes_loop m Tref_i T_ind I eta_sum mem n t
                      (next_spike_value T_ind (mem ! (spks_cnt + 1) + int Tref_i)) (spks_cnt + 1) V3
                      (if n \<le> spks_cnt + 1 then oob @ [spks_cnt + 1] else oob) = Inr (V', oob')"
                by (simp add: unf)
              from "1.IH"(1) [OF True Inr spike rd w1 w2 this]
              show ?thesis by (auto split: if_splits)
            qed
          qed
        qed
      qed
    qed
  qed
qed


lemma forceSpikes_loop_reads_behind:
  assumes "\<forall>i j. i \<le> j \<and> j < n \<longrightarrow> mem ! i \<le> mem ! j" "n \<le> length mem" "spks_cnt < n"
    and "next_spike = mem ! spks_cnt + int Tref_i" "int t \<le> next_spike" "0 < next_spike"
    and "mem ! (n - 1) + int Tref_i < int T_ind - 1"
    and "length V = T_ind" "length I = T_ind" "T_ind \<le> length eta_sum"
    and "forceSpikes_loop m Tref_i T_ind I eta_sum mem n t next_spike spks_cnt V oob
           = Inr (V', oob')"
  shows "n \<in> set oob'"
  using assms
proof (induction "n - spks_cnt" arbitrary: spks_cnt t next_spike V oob)
  case 0
  then show ?case by simp
next
  case (Suc d)
  let ?L = "forceSpikes_loop m Tref_i T_ind I eta_sum mem n"
  obtain p where p: "next_spike = int p"
    using Suc.prems(6) zero_le_imp_eq_int [of next_spike] by auto
  have "mem ! spks_cnt \<le> mem ! (n - 1)"
    using Suc.prems(1,3) by auto
  with Suc.prems(4,7) p have pT: "p < T_ind - 1" by linarith
  have tp: "t \<le> p" "0 < p" using Suc.prems(5,6) p by auto
  have "\<exists>V1. ?L t next_spike spks_cnt V oob = ?L p next_spike spks_cnt V1 oob
              \<and> length V1 = T_ind \<and> (\<forall>j \<le> t. V1 ! j = V ! j)"
    using tp pT p Suc.prems(8-10) by (intro forceSpikes_loop_plain_run) auto
  then obtain V1 where r1: "?L t next_spike spks_cnt V oob = ?L p next_spike spks_cnt V1 oob"
    and l1: "length V1 = T_ind" by blast
  show ?case
  proof (cases "spks_cnt + 1 < length mem")
    case False
    have "?L p next_spike spks_cnt V1 oob = Inl (OOBRead ''spks_i'' (spks_cnt + 1))"
      using pT p False l1 Suc.prems(9,10) by (intro forceSpikes_loop_read_fault) auto
    with r1 Suc.prems(11) show ?thesis by simp
  next
    case True
    let ?V2 = "V1[p + 1 := euler m (V1 ! p) (I ! p) (eta_sum ! p), p - 1 := 0, p := Vr m]"
    let ?oob = "if n \<le> spks_cnt + 1 then oob @ [spks_cnt + 1] else oob"
    let ?nx = "next_spike_value T_ind (mem ! (spks_cnt + 1) + int Tref_i)"
    have r2: "?L p next_spike spks_cnt V1 oob = ?L p ?nx (spks_cnt + 1) ?V2 ?oob"
      using pT p tp True l1 Suc.prems(9,10) by (intro forceSpikes_loop_spike_step) auto
    have r3: "?L p ?nx (spks_cnt + 1) ?V2 ?oob = Inr (V', oob')"
      using r1 r2 Suc.prems(11) by simp
    show ?thesis
    proof (cases "spks_cnt + 1 < n")
      case False
      then have n: "n = spks_cnt + 1" using Suc.prems(3) by simp
      from forceSpikes_loop_oob_grows [OF r3] obtain zs where "oob' = ?oob @ zs" by blast
      with n show ?thesis by simp
    next
      case more: True
      have mono: "mem ! spks_cnt \<le> mem ! (spks_cnt + 1)"
        using Suc.prems(1) more by auto
      have "mem ! (spks_cnt + 1) \<le> mem ! (n - 1)"
        using Suc.prems(1) more by auto
      with mono Suc.prems(4,6,7)
      have rng: "0 \<le> mem ! (spks_cnt + 1) + int Tref_i"
        "mem ! (spks_cnt + 1) + int Tref_i < int T_ind" by linarith+
      have r4: "?L p (mem ! (spks_cnt + 1) + int Tref_i) (spks_cnt + 1) ?V2 ?oob = Inr (V', oob')"
        using r3 by (simp only: next_spike_value_id [OF rng])
      show ?thesis
      proof (rule Suc.hyps(1))
        show "d = n - (spks_cnt + 1)" using Suc.hyps(2) by simp
        show "\<forall>i j. i \<le> j \<and> j < n \<longrightarrow> mem ! i \<le> mem ! j" by (rule Suc.prems(1))
        show "n \<le> length mem" by (rule Suc.prems(2))
        show "spks_cnt + 1 < n" by (rule more)
        show "mem ! (spks_cnt + 1) + int Tref_i = mem ! (spks_cnt + 1) + int Tref_i" by simp
        show "int p \<le> mem ! (spks_cnt + 1) + int Tref_i"
          using mono p Suc.prems(4) by simp
        show "0 < mem ! (spks_cnt + 1) + int Tref_i"
          using mono Suc.prems(4,6) by simp
        show "mem ! (n - 1) + int Tref_i < int T_ind - 1" by (rule Suc.prems(7))
        show "length ?V2 = T_ind" using l1 by simp
        show "length I = T_ind" by (rule Suc.prems(9))
        show "T_ind \<le> length eta_sum" by (rule Suc.prems(10))
        show "?L p (mem ! (spks_cnt + 1) + int Tref_i) (spks_cnt + 1) ?V2 ?oob = Inr (V', oob')"
          by (rule r4)
      qed
    qed
  qed
qed


lemma slice_add_length: "slice_add arr a ker = Inr arr' \<Longrightarrow> length arr' = length arr"
  by (auto simp: slice_add_def Let_def split: if_splits)

lemma add_eta_at_spikes_length:
  "add_eta_at_spikes arr Tref_i ker ss = Inr arr' \<Longrightarrow> length arr' = length arr"
proof (induction ss arbitrary: arr)
  case Nil
  then show ?case by simp
next
  case (Cons s ss)
  from Cons.prems obtain arr1 where a: "slice_add arr (nat s + 1 + Tref_i) ker = Inr arr1"
    and b: "add_eta_at_spikes arr1 Tref_i ker ss = Inr arr'"
    by (auto simp: bind_err_def split: sum.splits)
  from Cons.IH [OF b] slice_add_length [OF a] show ?case by simp
qed

lemma forced_eta_sum_length:
  assumes "forced_eta_sum p_T Tref_i p_eta spks_i = Inr es"
  shows "length es = p_T"
proof -
  let ?N = "nat (py_int (real p_T + 1.1 * real (length p_eta) + real Tref_i))"
  from assms obtain arr where a: "add_eta_at_spikes (replicate ?N 0) Tref_i p_eta spks_i = Inr arr"
    and e: "es = take p_T arr"
    by (auto simp: forced_eta_sum_def bind_err_def split: sum.splits)
  have "p_T \<le> ?N" using forced_size [of p_T "length p_eta" Tref_i] by simp
  with add_eta_at_spikes_length [OF a] e show ?thesis by simp
qed

lemma forceSpikes_result_loop:
  assumes "simulateDeterministic_forceSpikes m p_eta beyond I V0 spk_times = Inr res"
  shows "\<exists>es V'. forced_eta_sum (length I) (nat (p_Tref_i m)) p_eta (timeToIndex spk_times (dt m))
                    = Inr es
           \<and> forceSpikes_loop m (nat (Tref_ind m)) (length I) I es
                 (timeToIndex spk_times (dt m) @ beyond) (length (timeToIndex spk_times (dt m)))
                 0 (next_spike_value (length I)
                      ((timeToIndex spk_times (dt m) @ beyond) ! 0 + int (nat (Tref_ind m)))) 0
                 ((replicate (length I) 0)[0 := V0])
                 (if timeToIndex spk_times (dt m) = [] then [0] else [])
               = Inr (V', oob_reads res)
           \<and> I \<noteq> [] \<and> 0 < dt m \<and> 0 \<le> Tref m \<and> (\<forall>s \<in> set spk_times. 0 \<le> s)"
  using assms
  unfolding simulateDeterministic_forceSpikes_def Let_def bind_err_def
  by (auto split: if_splits sum.splits prod.splits)

lemma forceSpikes_returns_after_read_behind:
  assumes r: "simulateDeterministic_forceSpikes m p_eta beyond I V0 spk_times = Inr res"
    and a: "spk_times = [] \<or>
            (sorted spk_times \<and> 0 < round (hd spk_times / dt m) + Tref_ind m
               \<and> round (last spk_times / dt m) + Tref_ind m < int (length I) - 1)"
  shows "length spk_times \<in> set (oob_reads res)"
proof -
  let ?idx = "timeToIndex spk_times (dt m)"
  let ?Ti = "nat (Tref_ind m)"
  from forceSpikes_result_loop [OF r] obtain es V' where
    es: "forced_eta_sum (length I) (nat (p_Tref_i m)) p_eta ?idx = Inr es"
    and loop0: "forceSpikes_loop m ?Ti (length I) I es (?idx @ beyond) (length ?idx) 0
                 (next_spike_value (length I) ((?idx @ beyond) ! 0 + int ?Ti)) 0
                 ((replicate (length I) 0)[0 := V0])
                 (if ?idx = [] then [0] else []) = Inr (V', oob_reads res)"
    and I: "I \<noteq> []" and m: "0 < dt m" "0 \<le> Tref m"
    by blast
  have les: "length es = length I" using es by (rule forced_eta_sum_length)
  have len: "length ?idx = length spk_times" by (simp add: timeToIndex_def)
  show ?thesis
  proof (cases "spk_times = []")
    case True
    then have "?idx = []" by (simp add: timeToIndex_def)
    with loop0 forceSpikes_loop_oob_grows [of m ?Ti "length I" I es "?idx @ beyond" "length ?idx" 0
        "next_spike_value (length I) ((?idx @ beyond) ! 0 + int ?Ti)" 0
        "(replicate (length I) 0)[0 := V0]" "[0]" V' "oob_reads res"]
    obtain zs where "oob_reads res = [0] @ zs" by auto
    with True show ?thesis by simp
  next
    case False
    with a have b: "sorted spk_times" "0 < round (hd spk_times / dt m) + Tref_ind m"
      "round (last spk_times / dt m) + Tref_ind m < int (length I) - 1" by simp_all
    have Ti: "int ?Ti = Tref_ind m" using Tref_ind_nonneg [OF m] by simp
    have srt: "sorted ?idx" using m(1) b(1) by (rule sorted_timeToIndex)
    have ne: "?idx \<noteq> []" using False by (simp add: timeToIndex_def)
    have hd: "?idx ! 0 = round (hd spk_times / dt m)"
      using False by (simp add: timeToIndex_def hd_conv_nth)
    have lst: "?idx ! (length ?idx - 1) = round (last spk_times / dt m)"
      using False by (simp add: timeToIndex_def last_conv_nth)
    have mono: "\<forall>i j. i \<le> j \<and> j < length ?idx \<longrightarrow> (?idx @ beyond) ! i \<le> (?idx @ beyond) ! j"
      using srt by (auto simp: nth_append intro: sorted_nth_mono)
    have c0: "0 < length ?idx" using ne by simp
    have n0: "(?idx @ beyond) ! 0 = ?idx ! 0" using ne by (simp add: nth_append)
    have nl: "(?idx @ beyond) ! (length ?idx - 1) = ?idx ! (length ?idx - 1)"
      using ne by (simp add: nth_append)
    have "?idx ! 0 \<le> ?idx ! (length ?idx - 1)"
      using srt ne by (intro sorted_nth_mono) simp_all
    with b(2,3) hd lst Ti
    have rng: "0 \<le> (?idx @ beyond) ! 0 + int ?Ti"
      "(?idx @ beyond) ! 0 + int ?Ti < int (length I)"
      unfolding n0 by linarith+
    have loop: "forceSpikes_loop m ?Ti (length I) I es (?idx @ beyond) (length ?idx) 0
                 ((?idx @ beyond) ! 0 + int ?Ti) 0 ((replicate (length I) 0)[0 := V0])
                 (if ?idx = [] then [0] else []) = Inr (V', oob_reads res)"
      using loop0 by (simp only: next_spike_value_id [OF rng])
    have "length ?idx \<in> set (oob_reads res)"
    proof (rule forceSpikes_loop_reads_behind [OF mono _ c0 refl _ _ _ _ refl _ loop [unfolded if_not_P [OF ne]]])
      show "length ?idx \<le> length (?idx @ beyond)" by simp
      show "int 0 \<le> (?idx @ beyond) ! 0 + int ?Ti" using b(2) hd n0 Ti by simp
      show "0 < (?idx @ beyond) ! 0 + int ?Ti" using b(2) hd n0 Ti by simp
      show "(?idx @ beyond) ! (length ?idx - 1) + int ?Ti < int (length I) - 1"
        using b(3) lst nl Ti by simp
      show "length ((replicate (length I) (0::real))[0 := V0]) = length I" by simp
      show "length I \<le> length es" using les by simp
    qed
    with len show ?thesis by simp
  qed
qed

lemma slice_add_no_kernel: "slice_add arr a [] = Inr arr"
  by (simp add: slice_add_def Let_def)

lemma add_eta_at_spikes_no_kernel: "add_eta_at_spikes arr Tref_i [] ss = Inr arr"
  by (induction ss) (simp_all add: slice_add_no_kernel bind_err_def)

lemma forced_eta_sum_no_kernel: "forced_eta_sum p_T Tref_i [] ss = Inr (replicate p_T 0)"
  using forced_size [of p_T 0 Tref_i]
  by (simp add: forced_eta_sum_def add_eta_at_spikes_no_kernel bind_err_def min_def)

text \<open>
  C1, as the code has it. The spike time becomes a sample index by rounding to nearest,
  the refractory period by truncating the quotient that the C loop computes in single
  precision, \<open>Tref_ind = int(float(Tref)/float(dt))\<close>, and the forced reset is applied
  at their sum \<open>p\<close>. For an input of fewer than \<open>2^31\<close> samples and one supplied
  spike with \<open>0 < p < len(I) - 1\<close> the call returns a voltage array with
  \<open>V[p] = Vr\<close>, after one read behind the one-element array \<open>spks_i\<close>, provided the
  word \<open>g\<close> read there does not schedule another reset among the samples from \<open>p\<close>
  on: the 32 bits that \<open>next_spike\<close> keeps of \<open>g + Tref_ind\<close> are none of these
  indices.
\<close>

theorem forced_reset_sample_index:
  assumes "0 < dt m" "0 \<le> Tref m" "0 \<le> ts"
    and "p = nat (round (ts / dt m) + Tref_ind m)" "0 < p" "p + 1 < length I"
    and "length I < 2147483648"
    and "\<forall>u. p \<le> u \<and> u + 1 < length I \<longrightarrow> int u \<noteq> c_int (g + Tref_ind m)"
  shows "\<exists>res. simulateDeterministic_forceSpikes m p_eta (g # rest) I V0 [ts] = Inr res
           \<and> length (ret_V res) = length I
           \<and> ret_V res ! p = Vr m
           \<and> oob_reads res = [1]"
proof -
  have "\<forall>u. p \<le> u \<and> u + 1 < length I
          \<longrightarrow> int u \<noteq> next_spike_value (length I) (g + Tref_ind m)"
    using assms(7,8) by (simp add: next_spike_value_def)
  from forceSpikes_single_spike [OF assms(1-6) this, of p_eta rest V0]
  show ?thesis by blast
qed

theorem forced_reset_sample_index_witness:
  "\<exists>res. simulateDeterministic_forceSpikes (GIF_init (1 / 10) [] []) [1 / 5, 1 / 10] [0]
            (replicate 600 0) (- 65) [50] = Inr res
         \<and> length (ret_V res) = 600 \<and> ret_V res ! 540 = - 50 \<and> oob_reads res = [1]"
  using forced_reset_sample_index [of "GIF_init (1 / 10) [] []" 50 540 "replicate 600 0" 0
          "[1 / 5, 1 / 10]" "[]" "- 65"]
  by (simp add: GIF_init_sel Tref_ind_examples c_int_def)

text \<open>
  The claim as the spec states it fails for \<open>dt = 2.5\<close>: \<open>round(50/dt) +
  round(4/dt)\<close> is 22, the code resets at \<open>20 + int(1.6) = 21\<close>, and the returned
  voltage at sample 22 is one Euler step away from \<open>Vr\<close> (here the word behind
  \<open>spks_i\<close> is 0). When the read behind \<open>spks_i\<close> is a fault, no voltage is returned
  at all. It also fails for \<open>dt = 0.016\<close>, which divides \<open>Tref = 4\<close> evenly: the
  claimed index is \<open>3125 + 250\<close>, but the quotient of the two single-precision numbers
  is below 250, the loop truncates it to 249 and resets at sample 3374.
\<close>

theorem forced_reset_truncated_offset_counterexample:
  "round (50 / (5 / 2) :: real) + round (4 / (5 / 2) :: real) = 22
   \<and> V_at (simulateDeterministic_forceSpikes (GIF_init (5 / 2) [] []) [] [0]
             (replicate 24 0) (- 65) [50]) 22 = Some (- 415 / 8)
   \<and> V_at (simulateDeterministic_forceSpikes (GIF_init (5 / 2) [] []) [] [0]
             (replicate 24 0) (- 65) [50]) 21 = Some (- 50)
   \<and> Vr (GIF_init (5 / 2) [] []) = - 50
   \<and> V_at (simulateDeterministic_forceSpikes (GIF_init (5 / 2) [] []) [] []
             (replicate 24 0) (- 65) [50]) 22 = None
   \<and> round (50 / (2 / 125) :: real) + round (4 / (2 / 125) :: real) = 3375
   \<and> V_at (simulateDeterministic_forceSpikes (GIF_init (2 / 125) [] []) [] [0]
             (replicate 3400 0) (- 65) [50]) 3375 = Some (- 12503 / 250)
   \<and> V_at (simulateDeterministic_forceSpikes (GIF_init (2 / 125) [] []) [] [0]
             (replicate 3400 0) (- 65) [50]) 3374 = Some (- 50)"
proof -
  let ?m = "GIF_init (5 / 2) [] []"
  let ?m' = "GIF_init (2 / 125) [] []"
  have r: "round (50 / (5 / 2) :: real) = 20" "round (4 / (5 / 2) :: real) = 2"
    "round (50 / (2 / 125) :: real) = 3125" "round (4 / (2 / 125) :: real) = 250"
    by (simp_all add: round_def)
  have h: "0 < dt ?m" "0 \<le> Tref ?m" "(0::real) \<le> 50"
    "21 = nat (round (50 / dt ?m) + Tref_ind ?m)" "(0::nat) < 21"
    "21 + 1 < length (replicate 24 (0::real))"
    "\<forall>u. 21 \<le> u \<and> u + 1 < length (replicate 24 (0::real))
       \<longrightarrow> int u \<noteq> next_spike_value (length (replicate 24 (0::real))) (0 + Tref_ind ?m)"
    using r by (simp_all add: GIF_init_sel Tref_ind_examples next_spike_value_def c_int_def)
  from forceSpikes_single_spike [OF h, of "[]" "[]" "- 65"]
  obtain res where
    s: "simulateDeterministic_forceSpikes ?m [] [0] (replicate 24 0) (- 65) [50] = Inr res"
    and l: "length (ret_V res) = length (replicate 24 (0::real))"
    and v: "ret_V res ! 21 = Vr ?m"
    and w: "ret_V res ! (21 + 1) = euler ?m (Vr ?m) (replicate 24 0 ! 21) (ret_eta_sum res ! 21)"
    and e: "forced_eta_sum (length (replicate 24 (0::real))) (nat (p_Tref_i ?m)) []
              (timeToIndex [50] (dt ?m)) = Inr (ret_eta_sum res)"
    by blast
  have "ret_eta_sum res = replicate 24 0"
    using e by (simp add: forced_eta_sum_no_kernel)
  then have v22: "ret_V res ! 22 = - 415 / 8"
    using w by (simp add: euler_def GIF_init_sel)
  have v21: "ret_V res ! 21 = - 50" using v by (simp add: GIF_init_sel)
  have strict: "simulateDeterministic_forceSpikes ?m [] [] (replicate 24 0) (- 65) [50]
                   = Inl (OOBRead ''spks_i'' (length [50 :: real]))"
    using forceSpikes_faults_behind_spks_i [of ?m "replicate 24 0" "[]" "- 65" "[50]"] r
    by (simp add: GIF_init_sel Tref_ind_examples)
  have h': "0 < dt ?m'" "0 \<le> Tref ?m'" "(0::real) \<le> 50"
    "3374 = nat (round (50 / dt ?m') + Tref_ind ?m')" "(0::nat) < 3374"
    "3374 + 1 < length (replicate 3400 (0::real))"
    "\<forall>u. 3374 \<le> u \<and> u + 1 < length (replicate 3400 (0::real))
       \<longrightarrow> int u \<noteq> next_spike_value (length (replicate 3400 (0::real))) (0 + Tref_ind ?m')"
    using r by (simp_all add: GIF_init_sel Tref_ind_examples next_spike_value_def c_int_def)
  from forceSpikes_single_spike [OF h', of "[]" "[]" "- 65"]
  obtain res' where
    s': "simulateDeterministic_forceSpikes ?m' [] [0] (replicate 3400 0) (- 65) [50] = Inr res'"
    and l': "length (ret_V res') = length (replicate 3400 (0::real))"
    and v': "ret_V res' ! 3374 = Vr ?m'"
    and w': "ret_V res' ! (3374 + 1)
               = euler ?m' (Vr ?m') (replicate 3400 0 ! 3374) (ret_eta_sum res' ! 3374)"
    and e': "forced_eta_sum (length (replicate 3400 (0::real))) (nat (p_Tref_i ?m')) []
              (timeToIndex [50] (dt ?m')) = Inr (ret_eta_sum res')"
    by blast
  have "ret_eta_sum res' = replicate 3400 0"
    using e' by (simp add: forced_eta_sum_no_kernel)
  then have v3375: "ret_V res' ! 3375 = - 12503 / 250"
    using w' by (simp add: euler_def GIF_init_sel)
  have v3374: "ret_V res' ! 3374 = - 50" using v' by (simp add: GIF_init_sel)
  show ?thesis
    using s l v22 v21 strict s' l' v3375 v3374 r by (simp add: V_at_def GIF_init_sel)
qed

text \<open>
  C10. With every read outside \<open>spks_i\<close> counted as a fault (\<open>beyond = []\<close>), the
  forced-spike engine does not get through its edge cases. For an empty spike list it
  faults on \<open>spks_i[0]\<close> before the loop. For a list of ascending spike times that
  are not negative, whose first reset index is positive and whose last reset index
  lies inside the simulated window, it faults on \<open>spks_i[len(spks_i)]\<close> after the
  last spike has been processed. And whatever lies behind the array: a call that
  returns on such a list has read \<open>spks_i\<close> at the index that is its length.
\<close>

theorem forceSpikes_reads_behind_spks_i:
  assumes "0 < dt m" "0 \<le> Tref m" "I \<noteq> []"
  shows "simulateDeterministic_forceSpikes m p_eta [] I V0 [] = Inl (OOBRead ''spks_i'' 0)
         \<and> (spk_times \<noteq> [] \<and> sorted spk_times \<and> 0 \<le> hd spk_times
              \<and> 0 < round (hd spk_times / dt m) + Tref_ind m
              \<and> round (last spk_times / dt m) + Tref_ind m < int (length I) - 1
             \<longrightarrow> simulateDeterministic_forceSpikes m p_eta [] I V0 spk_times
                   = Inl (OOBRead ''spks_i'' (length spk_times)))
         \<and> (simulateDeterministic_forceSpikes m p_eta beyond I V0 spk_times = Inr res
              \<and> (spk_times = [] \<or>
                  (sorted spk_times \<and> 0 < round (hd spk_times / dt m) + Tref_ind m
                     \<and> round (last spk_times / dt m) + Tref_ind m < int (length I) - 1))
             \<longrightarrow> length spk_times \<in> set (oob_reads res))"
  using forceSpikes_faults_behind_spks_i [OF assms, of p_eta V0 spk_times]
    forceSpikes_returns_after_read_behind [of m p_eta beyond I V0 spk_times res]
  by blast

theorem forceSpikes_reads_behind_spks_i_witness:
  "simulateDeterministic_forceSpikes (GIF_init (1 / 10) [] []) [1 / 5, 1 / 10] []
     (replicate 600 0) (- 65) [] = Inl (OOBRead ''spks_i'' 0)
   \<and> simulateDeterministic_forceSpikes (GIF_init (1 / 10) [] []) [1 / 5, 1 / 10] []
       (replicate 600 0) (- 65) [10, 50] = Inl (OOBRead ''spks_i'' 2)
   \<and> (\<exists>res. simulateDeterministic_forceSpikes (GIF_init (1 / 10) [] []) [1 / 5, 1 / 10] [0]
                (replicate 600 0) (- 65) [50] = Inr res
          \<and> length [50 :: real] \<in> set (oob_reads res))"
proof -
  let ?m = "GIF_init (1 / 10) [] []"
  have h: "0 < dt ?m" "0 \<le> Tref ?m" "replicate 600 (0::real) \<noteq> []"
    by (simp_all add: GIF_init_def)
  have T: "Tref_ind ?m = 40" by (rule Tref_ind_examples)
  have "\<exists>res. simulateDeterministic_forceSpikes ?m [1 / 5, 1 / 10] (0 # []) (replicate 600 0)
                 (- 65) [50] = Inr res
           \<and> length (ret_V res) = length (replicate 600 (0::real))
           \<and> ret_V res ! 540 = Vr ?m
           \<and> ret_V res ! (540 + 1)
               = euler ?m (Vr ?m) (replicate 600 0 ! 540) (ret_eta_sum res ! 540)
           \<and> oob_reads res = [1]
           \<and> forced_eta_sum (length (replicate 600 (0::real))) (nat (p_Tref_i ?m)) [1 / 5, 1 / 10]
                 (timeToIndex [50] (dt ?m)) = Inr (ret_eta_sum res)"
    using T by (intro forceSpikes_single_spike)
      (simp_all add: GIF_init_def next_spike_value_def c_int_def)
  then obtain res where
    r: "simulateDeterministic_forceSpikes ?m [1 / 5, 1 / 10] [0] (replicate 600 0) (- 65) [50]
          = Inr res"
    by blast
  from forceSpikes_reads_behind_spks_i [OF h, where p_eta = "[1 / 5, 1 / 10]" and ?V0.0 = "- 65"
      and spk_times = "[50]" and beyond = "[0]" and res = res] r T
  have "length [50 :: real] \<in> set (oob_reads res)" by (simp add: GIF_init_def)
  with r forceSpikes_reads_behind_spks_i [OF h, where p_eta = "[1 / 5, 1 / 10]"
      and ?V0.0 = "- 65" and spk_times = "[10, 50]"] T
  show ?thesis by (simp add: GIF_init_def)
qed

subsection \<open>The Newton loop of maximizeLikelihood\<close>

text \<open>The inverse of a matrix of one row, and the shape of an inverse.\<close>

lemma inv_mat_1x1: "a \<noteq> 0 \<Longrightarrow> inv_mat [[a]] = Inr [[1 / a]]"
  by (simp add: inv_mat_def minor_mat_def)

lemma inv_mat_length: "inv_mat H = Inr H_inv \<Longrightarrow> list_all (\<lambda>row. length row = length H) H_inv"
  by (auto simp: inv_mat_def Let_def list_all_iff split: if_splits)

text \<open>
  What a pass can raise: ValueError from numpy where shapes do not fit, and LinAlgError
  from \<open>inv\<close>.
\<close>

lemma np_dot_error: "np_dot X v = Inl e \<Longrightarrow> e = ValueError"
  by (simp add: np_dot_def split: if_splits)

lemma np_sub_error: "np_sub x y = Inl e \<Longrightarrow> e = ValueError"
  by (simp add: np_sub_def split: if_splits)

lemma np_iadd_error: "np_iadd x y = Inl e \<Longrightarrow> e = ValueError"
  by (simp add: np_iadd_def split: if_splits)

lemma computeLikelihoodGradientHessian_error:
  "computeLikelihoodGradientHessian m beta X Xs s = Inl e \<Longrightarrow> e = ValueError"
  by (auto simp: computeLikelihoodGradientHessian_def bind_err_def Let_def
           dest: np_dot_error np_sub_error split: sum.splits)

lemma add_LGH_error: "add_LGH acc LGH = Inl e \<Longrightarrow> e = ValueError"
  by (cases "(acc, LGH)" rule: add_LGH.cases)
     (auto simp: bind_err_def dest: np_iadd_error split: sum.splits)

lemma sum_LGH_error: "sum_LGH m beta acc all = Inl e \<Longrightarrow> e = ValueError"
proof (induction m beta acc all rule: sum_LGH.induct)
  case (1 m beta acc)
  then show ?case by simp
next
  case (2 m beta acc X X_spikes sum_X_spikes rest)
  show ?case
  proof (cases "computeLikelihoodGradientHessian m beta X X_spikes sum_X_spikes")
    case (Inl e')
    with "2.prems" show ?thesis
      by (auto simp: bind_err_def dest: computeLikelihoodGradientHessian_error)
  next
    case c: (Inr LGH)
    show ?thesis
    proof (cases "add_LGH acc LGH")
      case (Inl e')
      with c "2.prems" show ?thesis by (auto simp: bind_err_def dest: add_LGH_error)
    next
      case a: (Inr acc')
      from c a "2.prems" have "sum_LGH m beta acc' rest = Inl e" by (simp add: bind_err_def)
      then show ?thesis by (rule "2.IH")
    qed
  qed
qed

lemma newton_step_error:
  "newton_step m all lr beta = Inl e \<Longrightarrow> e = LinAlgError \<or> e = ValueError"
  by (auto simp: newton_step_def bind_err_def inv_mat_def Let_def
           dest: sum_LGH_error np_dot_error
           split: prod.splits option.splits sum.splits if_splits)

text \<open>With shapes that fit \<open>beta\<close>, only \<open>inv\<close> can raise, and \<open>beta\<close> keeps its length.\<close>

lemma computeLikelihoodGradientHessian_fit:
  assumes "list_all (\<lambda>row. length row = length beta) X"
    and "list_all (\<lambda>row. length row = length beta) X_spikes"
    and "length sum_X_spikes = length beta"
  shows "\<exists>L G H. computeLikelihoodGradientHessian m beta X X_spikes sum_X_spikes = Inr (L, G, H)
           \<and> length G = length beta \<and> length H = length beta"
  using assms
  by (simp add: computeLikelihoodGradientHessian_def np_dot_def np_sub_def bind_err_def Let_def)

lemma add_LGH_fit:
  assumes "acc_fits p acc" "length G = p" "length H = p"
  shows "\<exists>acc'. add_LGH acc (L, G, H) = Inr acc' \<and> acc_fits p acc'"
proof (cases acc)
  case (Pair L0 r)
  show ?thesis
  proof (cases r)
    case None
    with Pair assms show ?thesis by (simp add: acc_fits_def)
  next
    case (Some GH)
    obtain G0 H0 where "GH = (G0, H0)" by (cases GH)
    with Some Pair assms show ?thesis
      by (simp add: acc_fits_def np_iadd_def bind_err_def)
  qed
qed

lemma sum_LGH_fit:
  "shapes_fit (length beta) all \<Longrightarrow> acc_fits (length beta) acc \<Longrightarrow>
   \<exists>acc'. sum_LGH m beta acc all = Inr acc' \<and> acc_fits (length beta) acc'"
proof (induction all arbitrary: acc)
  case Nil
  then show ?case by simp
next
  case (Cons d rest)
  obtain X X_spikes sum_X_spikes where d: "d = (X, X_spikes, sum_X_spikes)" by (cases d)
  from Cons.prems(1) d have f: "list_all (\<lambda>row. length row = length beta) X"
    "list_all (\<lambda>row. length row = length beta) X_spikes" "length sum_X_spikes = length beta"
    and r: "shapes_fit (length beta) rest"
    by (simp_all add: shapes_fit_def)
  from computeLikelihoodGradientHessian_fit [OF f, of m] obtain L G H where
    c: "computeLikelihoodGradientHessian m beta X X_spikes sum_X_spikes = Inr (L, G, H)"
    and l: "length G = length beta" "length H = length beta" by blast
  from add_LGH_fit [OF Cons.prems(2) l, of L] obtain acc1 where
    a: "add_LGH acc (L, G, H) = Inr acc1" and k: "acc_fits (length beta) acc1" by blast
  from Cons.IH [OF r k] obtain acc' where
    "sum_LGH m beta acc1 rest = Inr acc'" "acc_fits (length beta) acc'" by blast
  with d c a show ?case by (simp add: bind_err_def)
qed

lemma newton_step_fit:
  assumes "shapes_fit (length beta) all"
  shows "(newton_step m all lr beta = Inl e \<longrightarrow> e = LinAlgError)
       \<and> (newton_step m all lr beta = Inr (beta', L) \<longrightarrow> length beta' = length beta)"
proof -
  have "acc_fits (length beta) (0, None)" by (simp add: acc_fits_def)
  from sum_LGH_fit [OF assms this, of m] obtain acc' where
    s: "sum_LGH m beta (0, None) all = Inr acc'" and k: "acc_fits (length beta) acc'" by blast
  obtain L' r where acc': "acc' = (L', r)" by (cases acc')
  show ?thesis
  proof (cases r)
    case None
    with s acc' show ?thesis by (simp add: newton_step_def bind_err_def)
  next
    case (Some GH)
    obtain G H where GH: "GH = (G, H)" by (cases GH)
    with Some acc' k have l: "length G = length beta" "length H = length beta"
      by (simp_all add: acc_fits_def)
    show ?thesis
    proof (cases "inv_mat H")
      case (Inl e')
      then have "e' = LinAlgError" by (auto simp: inv_mat_def Let_def split: if_splits)
      with Inl s acc' Some GH show ?thesis by (simp add: newton_step_def bind_err_def)
    next
      case (Inr H_inv)
      from inv_mat_length [OF Inr] l have "list_all (\<lambda>row. length row = length G) H_inv" by simp
      moreover from Inr have "length H_inv = length H"
        by (auto simp: inv_mat_def Let_def split: if_splits)
      ultimately show ?thesis
        using Inr s acc' Some GH l
        by (auto simp: newton_step_def bind_err_def np_dot_def mat_vec_def)
    qed
  qed
qed

text \<open>
  The loop: the errors that leave it, the number of passes it makes, and its last pass,
  which starts from what the loop with one pass less returns.
\<close>

lemma newton_loop_error:
  "newton_loop m all nan_at maxIter stopCond i beta old_L = Inl e \<Longrightarrow>
   e = LinAlgError \<or> e = ValueError"
proof (induction m all nan_at maxIter stopCond i beta old_L rule: newton_loop.induct)
  case (1 m all nan_at maxIter stopCond i beta old_L)
  let ?lr = "if i \<le> 10 then 0.1 else (1.0 :: real)"
  show ?case
  proof (cases "i < maxIter")
    case False
    with "1.prems" show ?thesis by (simp add: newton_loop.simps)
  next
    case True
    show ?thesis
    proof (cases "newton_step m all ?lr beta")
      case (Inl e')
      with True "1.prems" have "e = e'" by (simp add: newton_loop.simps Let_def)
      with Inl newton_step_error [of m all ?lr beta e'] show ?thesis by simp
    next
      case (Inr p)
      obtain beta' L where p: "p = (beta', L)" by (cases p)
      show ?thesis
        using "1.IH" [OF True refl Inr p [symmetric]] "1.prems" True Inr p
        by (auto simp: newton_loop.simps [of m all nan_at maxIter stopCond i beta old_L] Let_def
                 split: if_splits)
    qed
  qed
qed

lemma newton_loop_fit:
  "shapes_fit (length beta) all \<Longrightarrow>
   newton_loop m all nan_at maxIter stopCond i beta old_L = Inl e \<Longrightarrow> e = LinAlgError"
proof (induction m all nan_at maxIter stopCond i beta old_L rule: newton_loop.induct)
  case (1 m all nan_at maxIter stopCond i beta old_L)
  let ?lr = "if i \<le> 10 then 0.1 else (1.0 :: real)"
  note fit = newton_step_fit [OF "1.prems"(1), of m ?lr]
  show ?case
  proof (cases "i < maxIter")
    case False
    with "1.prems" show ?thesis by (simp add: newton_loop.simps)
  next
    case True
    show ?thesis
    proof (cases "newton_step m all ?lr beta")
      case (Inl e')
      with True "1.prems" have "e = e'" by (simp add: newton_loop.simps Let_def)
      with Inl fit [of e'] show ?thesis by simp
    next
      case (Inr p)
      obtain beta' L where p: "p = (beta', L)" by (cases p)
      from fit [of _ beta' L] Inr p have "length beta' = length beta" by simp
      with "1.prems"(1) have f': "shapes_fit (length beta') all" by simp
      show ?thesis
        using "1.IH" [OF True refl Inr p [symmetric] _ _ f'] "1.prems"(2) True Inr p
        by (auto simp: newton_loop.simps [of m all nan_at maxIter stopCond i beta old_L] Let_def
                 split: if_splits)
    qed
  qed
qed

lemma newton_loop_passes:
  "newton_loop m all nan_at maxIter stopCond i beta old_L = Inr (b, n) \<Longrightarrow>
   i \<le> n \<and> n \<le> max i maxIter \<and> (i < maxIter \<longrightarrow> i < n)"
proof (induction m all nan_at maxIter stopCond i beta old_L rule: newton_loop.induct)
  case (1 m all nan_at maxIter stopCond i beta old_L)
  let ?lr = "if i \<le> 10 then 0.1 else (1.0 :: real)"
  show ?case
  proof (cases "i < maxIter")
    case False
    with "1.prems" show ?thesis by (simp add: newton_loop.simps)
  next
    case True
    show ?thesis
    proof (cases "newton_step m all ?lr beta")
      case (Inl e')
      with True "1.prems" show ?thesis by (simp add: newton_loop.simps Let_def)
    next
      case (Inr p)
      obtain beta' L where p: "p = (beta', L)" by (cases p)
      show ?thesis
        using "1.IH" [OF True refl Inr p [symmetric]] "1.prems" True Inr p
        by (auto simp: newton_loop.simps [of m all nan_at maxIter stopCond i beta old_L] Let_def
                 split: if_splits)
    qed
  qed
qed


lemma newton_loop_exit:
  "newton_loop m all nan_at k stopCond k beta old_L = Inr (beta, k)"
  by (simp add: newton_loop.simps)

lemma newton_loop_last_pass:
  "i \<le> k \<Longrightarrow> n = k - i \<Longrightarrow>
   newton_loop m all nan_at (Suc k) stopCond i beta old_L = Inr (b', Suc k) \<Longrightarrow>
   \<exists>b L. newton_loop m all nan_at k stopCond i beta old_L = Inr (b, k)
       \<and> newton_step m all (if k \<le> 10 then 0.1 else 1.0) b = Inr (b', L)"
proof (induction n arbitrary: i beta old_L)
  case 0
  then have ik: "i = k" by simp
  let ?lr = "if k \<le> 10 then 0.1 else (1.0 :: real)"
  show ?case
  proof (cases "newton_step m all ?lr beta")
    case (Inl e)
    with "0.prems"(3) ik show ?thesis
      by (simp add: newton_loop.simps [of m all nan_at "Suc k" stopCond k beta old_L] Let_def)
  next
    case (Inr p)
    obtain beta' L where p: "p = (beta', L)" by (cases p)
    have "newton_loop m all nan_at (Suc k) stopCond (Suc k) beta' L = Inr (beta', Suc k)"
      by (rule newton_loop_exit)
    with "0.prems"(3) ik Inr p have "b' = beta'"
      by (simp add: newton_loop.simps [of m all nan_at "Suc k" stopCond k beta old_L] Let_def
               split: if_splits)
    with Inr p ik show ?thesis by (simp add: newton_loop_exit)
  qed
next
  case (Suc n)
  then have ik: "i < k" "Suc i \<le> k" "n = k - Suc i" by simp_all
  let ?lr = "if i \<le> 10 then 0.1 else (1.0 :: real)"
  show ?case
  proof (cases "newton_step m all ?lr beta")
    case (Inl e)
    with Suc.prems(3) ik show ?thesis
      by (simp add: newton_loop.simps [of m all nan_at "Suc k" stopCond i beta old_L] Let_def)
  next
    case (Inr p)
    obtain beta1 L1 where p: "p = (beta1, L1)" by (cases p)
    from Suc.prems(3) ik Inr p
    have nb: "\<not> (i > 0 \<and> old_L \<noteq> 0 \<and> \<bar>(L1 - old_L) / old_L\<bar> < stopCond)" "\<not> nan_at i"
      and rec: "newton_loop m all nan_at (Suc k) stopCond (Suc i) beta1 L1 = Inr (b', Suc k)"
      by (auto simp: newton_loop.simps [of m all nan_at "Suc k" stopCond i beta old_L] Let_def
               split: if_splits)
    from Suc.IH [OF ik(2) ik(3) rec] obtain b L where
      r: "newton_loop m all nan_at k stopCond (Suc i) beta1 L1 = Inr (b, k)"
      and s: "newton_step m all (if k \<le> 10 then 0.1 else 1.0) b = Inr (b', L)" by blast
    have "newton_loop m all nan_at k stopCond i beta old_L = Inr (b, k)"
      using ik Inr p nb r
      by (auto simp: newton_loop.simps [of m all nan_at k stopCond i beta old_L] Let_def)
    with s show ?thesis by blast
  qed
qed

lemma newton_step_Inr:
  "newton_step m all lr b = Inr (b', L) \<Longrightarrow>
   \<exists>G H H_inv. sum_LGH m b (0, None) all = Inr (L, Some (G, H)) \<and> inv_mat H = Inr H_inv
     \<and> b' = map2 (\<lambda>b d. b - lr * d) b (mat_vec H_inv G)"
  by (auto simp: newton_step_def bind_err_def np_dot_def
           split: prod.splits option.splits sum.splits if_splits)


text \<open>
  The example: the trace is simulated without a fault (its spike is never reached), and
  the precomputation collects what \<open>buildXmatrix\<close> returns.
\<close>

lemma example_simulation:
  "\<exists>sim. simulateDeterministic_forceSpikes (GIF_init 1000 [] []) [] [] [0, 0] (- 65) [5000]
           = Inr sim"
  by (simp add: simulateDeterministic_forceSpikes_def Let_def GIF_init_sel Tref_ind_examples
        timeToIndex_def forced_eta_sum_no_kernel bind_err_def next_spike_value_def c_int_def
        forceSpikes_loop.simps integrate_voltage_def rd_def wr_def)

lemma example_precompute:
  "precompute (GIF_init 1000 [] []) [] no_words example_buildXmatrix 0 [example_trace] ([], 0, 0)
     = Inr ([([[1], [1], [1]], [[1]], [1])], 3, 1)"
  "precompute (GIF_init 1000 [] []) [] no_words zero_buildXmatrix 0 [example_trace] ([], 0, 0)
     = Inr ([([[0]], [[0]], [0])], 1, 1)"
  "precompute (GIF_init 1000 [] []) [] no_words example_buildXmatrix 0
     [example_trace\<lparr>useTrace := False\<rparr>] ([], 0, 0) = Inr ([], 0, 0)"
  using example_simulation
  by (auto simp: example_trace_def no_words_def example_buildXmatrix_def zero_buildXmatrix_def
        bind_err_def)

lemma example_sum_LGH:
  "sum_LGH (GIF_init 1000 [] []) [b] (0, None) [([[1], [1], [1]], [[1]], [1])]
     = Inr (b - 3 * exp b, Some ([1 - 3 * exp b], [[- (3 * exp b)]]))"
  by (simp add: computeLikelihoodGradientHessian_def GIF_init_sel np_dot_def np_sub_def
        mat_vec_def dot_def bind_err_def Let_def)

lemma example_newton_step:
  "newton_step (GIF_init 1000 [] []) [([[1], [1], [1]], [[1]], [1])] lr [b]
     = Inr ([b - lr * ((1 - 3 * exp b) / - (3 * exp b))], b - 3 * exp b)"
  by (simp add: newton_step_def example_sum_LGH inv_mat_1x1 np_dot_def mat_vec_def dot_def
        bind_err_def del: sum_LGH.simps)

text \<open>
  In the example the damped step never reaches the maximum, at which \<open>3*exp(b) = 1\<close>:
  started above it, the first eleven passes stay above it, no pass ends the loop when
  \<open>stopCond\<close> is 0, and every pass moves \<open>b\<close>.
\<close>

lemma example_damped_step:
  assumes "1 < 3 * exp (b :: real)"
  shows "1 < 3 * exp (b - 1 / 10 * ((1 - 3 * exp b) / - (3 * exp b)))"
proof -
  let ?x = "- (1 / 10 * ((1 - 3 * exp b) / - (3 * exp b)))"
  have e: "0 < exp b" by simp
  have x: "?x = - (1 / 10) + 1 / (30 * exp b)"
    using e by (simp add: field_simps)
  have "exp b * (1 + ?x) = 9 / 10 * exp b + 1 / 30"
    unfolding x using e by (simp add: field_simps)
  moreover have "1 + ?x \<le> exp ?x" by (rule exp_ge_add_one_self)
  then have "exp b * (1 + ?x) \<le> exp b * exp ?x" using e by (simp add: mult_left_mono)
  moreover have "exp b * exp ?x = exp (b - 1 / 10 * ((1 - 3 * exp b) / - (3 * exp b)))"
    by (simp add: exp_add [symmetric] del: exp_minus)
  ultimately have "9 / 10 * exp b + 1 / 30
                     \<le> exp (b - 1 / 10 * ((1 - 3 * exp b) / - (3 * exp b)))"
    by simp
  with assms show ?thesis by simp
qed

lemma example_run:
  "1 < 3 * exp b \<Longrightarrow> i \<le> n \<Longrightarrow> n \<le> 11 \<Longrightarrow> d = n - i \<Longrightarrow>
   \<exists>b'. newton_loop (GIF_init 1000 [] []) [([[1], [1], [1]], [[1]], [1])] no_nan n 0 i [b] old_L
          = Inr ([b'], n) \<and> 1 < 3 * exp b'"
proof (induction d arbitrary: i b old_L)
  case 0
  then have "i = n" by simp
  with "0.prems"(1) show ?case by (simp add: newton_loop_exit)
next
  case (Suc d)
  then have i: "i < n" "i \<le> 10" "Suc i \<le> n" "d = n - Suc i" by simp_all
  let ?b1 = "b - 1 / 10 * ((1 - 3 * exp b) / - (3 * exp b))"
  have P: "1 < 3 * exp ?b1" using Suc.prems(1) by (rule example_damped_step)
  from Suc.IH [OF P i(3) Suc.prems(3) i(4), of "b - 3 * exp b"] obtain b' where
    r: "newton_loop (GIF_init 1000 [] []) [([[1], [1], [1]], [[1]], [1])] no_nan n 0 (Suc i) [?b1]
          (b - 3 * exp b) = Inr ([b'], n)" and P': "1 < 3 * exp b'" by blast
  have nb: "\<not> \<bar>b - 3 * exp b - old_L\<bar> / \<bar>old_L\<bar> < 0" by (simp add: not_less)
  have "newton_loop (GIF_init 1000 [] []) [([[1], [1], [1]], [[1]], [1])] no_nan n 0 i [b] old_L
          = Inr ([b'], n)"
    using i(1,2) r nb
    by (simp add: newton_loop.simps [of _ _ _ n 0 i "[b]" old_L] example_newton_step no_nan_def
          Let_def)
  with P' show ?case by blast
qed

text \<open>
  C3, as the code has it. Take a call that returns after \<open>k + 1\<close> passes of the loop.
  Its last pass, the pass number \<open>k + 1\<close>, starts from the vector \<open>b\<close> that \<open>k\<close>
  passes give (\<open>beta0\<close> for the first pass) and moves it by the learning rate times
  \<open>inv(H)\<cdot>G\<close>; the learning rate is 0.1 for \<open>k < 11\<close>, that is in each of the first
  eleven passes, and 1.0 from the twelfth pass on.
\<close>

theorem maximizeLikelihood_learning_rate:
  assumes "maximizeLikelihood m p_eta beyond nan_at traces beta0 buildXmatrix (Suc k) stopCond
             = Inr (beta', Suc k)"
  shows "\<exists>all T_tot N_spikes_tot b L G H H_inv.
           precompute m p_eta beyond buildXmatrix 0 traces ([], 0, 0)
             = Inr (all, T_tot, N_spikes_tot)
         \<and> (if k = 0 then b = beta0
            else maximizeLikelihood m p_eta beyond nan_at traces beta0 buildXmatrix k stopCond
                   = Inr (b, k))
         \<and> sum_LGH m b (0, None) all = Inr (L, Some (G, H))
         \<and> inv_mat H = Inr H_inv
         \<and> beta' = map2 (\<lambda>b d. b - (if k < 11 then 1 / 10 else 1) * d) b (mat_vec H_inv G)"
proof -
  from assms obtain all T_tot N_spikes_tot where
    pre: "precompute m p_eta beyond buildXmatrix 0 traces ([], 0, 0)
            = Inr (all, T_tot, N_spikes_tot)"
    and T: "T_tot \<noteq> 0"
    and run: "newton_loop m all nan_at (Suc k) stopCond 0 beta0 1 = Inr (beta', Suc k)"
    by (auto simp: maximizeLikelihood_def bind_err_def split: sum.splits if_splits)
  from newton_loop_last_pass [OF _ _ run, of "k"] obtain b L where
    before: "newton_loop m all nan_at k stopCond 0 beta0 1 = Inr (b, k)"
    and step: "newton_step m all (if k \<le> 10 then 0.1 else 1.0) b = Inr (beta', L)"
    by auto
  from newton_step_Inr [OF step] obtain G H H_inv where
    s: "sum_LGH m b (0, None) all = Inr (L, Some (G, H))" and i: "inv_mat H = Inr H_inv"
    and b': "beta' = map2 (\<lambda>b d. b - (if k \<le> 10 then 0.1 else 1.0) * d) b (mat_vec H_inv G)"
    by blast
  have rate: "(if k \<le> 10 then 0.1 else 1.0) = (if k < 11 then 1 / 10 else (1 :: real))"
    by simp
  have "if k = 0 then b = beta0
        else maximizeLikelihood m p_eta beyond nan_at traces beta0 buildXmatrix k stopCond
               = Inr (b, k)"
  proof (cases "k = 0")
    case True
    with before show ?thesis by (simp add: newton_loop_exit)
  next
    case False
    with before pre T show ?thesis by (simp add: maximizeLikelihood_def bind_err_def)
  qed
  with pre s i b' show ?thesis unfolding rate by blast
qed

theorem maximizeLikelihood_learning_rate_witness:
  "maximizeLikelihood (GIF_init 1000 [] []) [] no_words no_nan [example_trace] [0]
       example_buildXmatrix (Suc 0) (1 / 1000000) = Inr ([- 1 / 15], Suc 0)
   \<and> (\<exists>all T_tot N_spikes_tot b L G H H_inv.
         precompute (GIF_init 1000 [] []) [] no_words example_buildXmatrix 0 [example_trace]
           ([], 0, 0) = Inr (all, T_tot, N_spikes_tot)
       \<and> b = [0]
       \<and> sum_LGH (GIF_init 1000 [] []) b (0, None) all = Inr (L, Some (G, H))
       \<and> inv_mat H = Inr H_inv
       \<and> [- 1 / 15] = map2 (\<lambda>b d. b - 1 / 10 * d) b (mat_vec H_inv G))"
proof -
  have run: "maximizeLikelihood (GIF_init 1000 [] []) [] no_words no_nan [example_trace] [0]
               example_buildXmatrix (Suc 0) (1 / 1000000) = Inr ([- 1 / 15], Suc 0)"
    by (simp add: maximizeLikelihood_def example_precompute bind_err_def Let_def
          newton_loop.simps [of _ _ _ "Suc 0"] example_newton_step no_nan_def
          del: precompute.simps)
  from maximizeLikelihood_learning_rate [OF run] run show ?thesis by simp
qed

text \<open>
  The claim as the spec states it fails at the eleventh pass. In the example, with
  \<open>stopCond = 0\<close>, the call with \<open>maxIter = 11\<close> makes eleven passes; its eleventh
  pass starts from the vector \<open>b10\<close> that the call with \<open>maxIter = 10\<close> returns and
  moves it by a tenth of the Newton step, which is not the full step.
\<close>

theorem learning_rate_eleventh_pass_counterexample:
  "\<exists>b10 b11 L G H H_inv.
       maximizeLikelihood (GIF_init 1000 [] []) [] no_words no_nan [example_trace] [0]
         example_buildXmatrix 10 0 = Inr (b10, 10)
     \<and> maximizeLikelihood (GIF_init 1000 [] []) [] no_words no_nan [example_trace] [0]
         example_buildXmatrix 11 0 = Inr (b11, 11)
     \<and> sum_LGH (GIF_init 1000 [] []) b10 (0, None) [([[1], [1], [1]], [[1]], [1])]
         = Inr (L, Some (G, H))
     \<and> inv_mat H = Inr H_inv
     \<and> b11 = map2 (\<lambda>b d. b - 1 / 10 * d) b10 (mat_vec H_inv G)
     \<and> b11 \<noteq> map2 (\<lambda>b d. b - 1 * d) b10 (mat_vec H_inv G)"
proof -
  let ?m = "GIF_init 1000 [] []"
  let ?all = "[([[1], [1], [1]], [[1]], [1 :: real])]"
  have P0: "1 < 3 * exp (0 :: real)" by simp
  from example_run [OF P0, of 0 10 10 1] obtain b10 where
    r10: "newton_loop ?m ?all no_nan 10 0 0 [0] 1 = Inr ([b10], 10)"
    and P10: "1 < 3 * exp b10" by auto
  from example_run [OF P0, of 0 11 11 1] obtain b11 where
    r11: "newton_loop ?m ?all no_nan 11 0 0 [0] 1 = Inr ([b11], 11)" by auto
  from newton_loop_last_pass [of 0 10 10 ?m ?all no_nan 0 "[0]" 1 "[b11]"] r11
  obtain b L where "newton_loop ?m ?all no_nan 10 0 0 [0] 1 = Inr (b, 10)"
    and "newton_step ?m ?all (if (10::nat) \<le> 10 then 0.1 else 1.0) b = Inr ([b11], L)"
    by auto
  with r10 have "newton_step ?m ?all (1 / 10) [b10] = Inr ([b11], L)" by simp
  then have b11: "b11 = b10 - 1 / 10 * ((1 - 3 * exp b10) / - (3 * exp b10))"
    by (simp add: example_newton_step)
  have d: "(1 - 3 * exp b10) / - (3 * exp b10) \<noteq> 0" using P10 by simp
  have m10: "maximizeLikelihood ?m [] no_words no_nan [example_trace] [0]
               example_buildXmatrix 10 0 = Inr ([b10], 10)"
    using r10 by (simp add: maximizeLikelihood_def example_precompute bind_err_def
                    del: precompute.simps)
  have m11: "maximizeLikelihood ?m [] no_words no_nan [example_trace] [0]
               example_buildXmatrix 11 0 = Inr ([b11], 11)"
    using r11 by (simp add: maximizeLikelihood_def example_precompute bind_err_def
                    del: precompute.simps)
  have i: "inv_mat [[- (3 * exp b10)]] = Inr [[1 / - (3 * exp b10)]]"
    by (rule inv_mat_1x1) simp
  have eq: "[b11] = map2 (\<lambda>b d. b - 1 / 10 * d) [b10]
                  (mat_vec [[1 / - (3 * exp b10)]] [1 - 3 * exp b10])"
    using b11 by (simp add: mat_vec_def dot_def)
  have ne: "[b11] \<noteq> map2 (\<lambda>b d. b - 1 * d) [b10]
                  (mat_vec [[1 / - (3 * exp b10)]] [1 - 3 * exp b10])"
    using b11 d by (simp add: mat_vec_def dot_def)
  show ?thesis
  proof (intro exI conjI)
    show "maximizeLikelihood ?m [] no_words no_nan [example_trace] [0]
            example_buildXmatrix 10 0 = Inr ([b10], 10)" by (rule m10)
    show "maximizeLikelihood ?m [] no_words no_nan [example_trace] [0]
            example_buildXmatrix 11 0 = Inr ([b11], 11)" by (rule m11)
    show "sum_LGH ?m [b10] (0, None) ?all
            = Inr (b10 - 3 * exp b10, Some ([1 - 3 * exp b10], [[- (3 * exp b10)]]))"
      by (rule example_sum_LGH)
    show "inv_mat [[- (3 * exp b10)]] = Inr [[1 / - (3 * exp b10)]]" by (rule i)
    show "[b11] = map2 (\<lambda>b d. b - 1 / 10 * d) [b10]
                    (mat_vec [[1 / - (3 * exp b10)]] [1 - 3 * exp b10])" by (rule eq)
    show "[b11] \<noteq> map2 (\<lambda>b d. b - 1 * d) [b10]
                    (mat_vec [[1 / - (3 * exp b10)]] [1 - 3 * exp b10])" by (rule ne)
  qed
qed

text \<open>
  C4, as the code has it. Nothing in \<open>maximizeLikelihood\<close> catches an exception.
  Called with \<open>maxIter > 0\<close> (1000 by default) it always ends, in one of three ways.
  It returns a parameter vector after at least one and at most \<open>maxIter\<close> passes. Or
  the precomputation has raised (the forced-spike simulation of a trace, or the caller's
  \<open>buildXmatrix\<close>). Or the precomputation has returned and a later statement raises:
  ZeroDivisionError in \<open>logL_poisson\<close> when the total duration \<open>T_tot\<close> is 0, as it
  is when no trace is used, and when it is not 0, LinAlgError from \<open>inv(H)\<close> or, only
  for matrices whose shapes do not fit \<open>beta0\<close>, ValueError from numpy.
\<close>

theorem maximizeLikelihood_outcome:
  assumes "0 < maxIter"
  shows "(\<exists>beta n. maximizeLikelihood m p_eta beyond nan_at traces beta0 buildXmatrix maxIter stopCond
                     = Inr (beta, n) \<and> 0 < n \<and> n \<le> maxIter)
         \<or> (\<exists>e. precompute m p_eta beyond buildXmatrix 0 traces ([], 0, 0) = Inl e
                \<and> maximizeLikelihood m p_eta beyond nan_at traces beta0 buildXmatrix maxIter stopCond
                    = Inl e)
         \<or> (\<exists>all T_tot N_spikes_tot.
               precompute m p_eta beyond buildXmatrix 0 traces ([], 0, 0)
                 = Inr (all, T_tot, N_spikes_tot)
             \<and> (if T_tot = 0
                 then maximizeLikelihood m p_eta beyond nan_at traces beta0 buildXmatrix maxIter
                        stopCond = Inl ZeroDivisionError
                 else maximizeLikelihood m p_eta beyond nan_at traces beta0 buildXmatrix maxIter
                        stopCond = Inl LinAlgError
                    \<or> (maximizeLikelihood m p_eta beyond nan_at traces beta0 buildXmatrix maxIter
                         stopCond = Inl ValueError
                       \<and> \<not> shapes_fit (length beta0) all)))"
proof (cases "precompute m p_eta beyond buildXmatrix 0 traces ([], 0, 0)")
  case (Inl e)
  then show ?thesis by (simp add: maximizeLikelihood_def bind_err_def)
next
  case (Inr pre)
  obtain all T_tot N_spikes_tot where pre: "pre = (all, T_tot, N_spikes_tot)" by (cases pre)
  show ?thesis
  proof (cases "T_tot = 0")
    case True
    with Inr pre show ?thesis by (simp add: maximizeLikelihood_def bind_err_def)
  next
    case False
    with Inr pre assms
    have ml: "maximizeLikelihood m p_eta beyond nan_at traces beta0 buildXmatrix maxIter stopCond
                = newton_loop m all nan_at maxIter stopCond 0 beta0 1"
      by (simp add: maximizeLikelihood_def bind_err_def)
    show ?thesis
    proof (cases "newton_loop m all nan_at maxIter stopCond 0 beta0 1")
      case e: (Inl e)
      from newton_loop_error [OF e] have "e = LinAlgError \<or> e = ValueError" .
      moreover have "shapes_fit (length beta0) all \<Longrightarrow> e = LinAlgError"
        by (rule newton_loop_fit [OF _ e])
      ultimately have "e = LinAlgError \<or> (e = ValueError \<and> \<not> shapes_fit (length beta0) all)"
        by blast
      with e ml Inr pre False show ?thesis by auto
    next
      case r: (Inr p)
      obtain beta n where p: "p = (beta, n)" by (cases p)
      from newton_loop_passes [OF r [unfolded p]] assms have "0 < n \<and> n \<le> maxIter" by simp
      with r p ml show ?thesis by simp
    qed
  qed
qed

theorem maximizeLikelihood_outcome_witness:
  "(0::nat) < 1
   \<and> maximizeLikelihood (GIF_init 1000 [] []) [] no_words no_nan [example_trace] [0]
         example_buildXmatrix 1 (1 / 1000000) = Inr ([- 1 / 15], 1)
   \<and> (\<exists>beta n. maximizeLikelihood (GIF_init 1000 [] []) [] no_words no_nan [example_trace] [0]
                   example_buildXmatrix 1 (1 / 1000000) = Inr (beta, n) \<and> 0 < n \<and> n \<le> 1)"
proof -
  have run: "maximizeLikelihood (GIF_init 1000 [] []) [] no_words no_nan [example_trace] [0]
               example_buildXmatrix 1 (1 / 1000000) = Inr ([- 1 / 15], 1)"
    by (simp add: maximizeLikelihood_def example_precompute bind_err_def Let_def
          newton_loop.simps [of _ _ _ "Suc 0"] example_newton_step no_nan_def
          del: precompute.simps)
  from maximizeLikelihood_outcome [of 1 "GIF_init 1000 [] []" "[]" no_words no_nan
      "[example_trace]" "[0]" example_buildXmatrix "1 / 1000000"] run
  show ?thesis by simp
qed

text \<open>
  The claim as the spec states it fails in each of these ways. One sample whose design
  row is 0 gives \<open>H = [[0]]\<close> in the first pass, and \<open>inv\<close> raises. Without a used
  trace the quotient in \<open>logL_poisson\<close> is \<open>0.0/0.0\<close>, and Python raises before the
  loop. With a \<open>beta0\<close> of two entries for design rows of one, \<open>np.dot\<close> raises in
  the first pass.
\<close>

theorem maximizeLikelihood_singular_counterexample:
  "maximizeLikelihood (GIF_init 1000 [] []) [] no_words no_nan [example_trace] [0]
     zero_buildXmatrix 1000 (1 / 1000000) = Inl LinAlgError
   \<and> maximizeLikelihood (GIF_init 1000 [] []) [] no_words no_nan
       [example_trace\<lparr>useTrace := False\<rparr>] [0] example_buildXmatrix 1000 (1 / 1000000)
       = Inl ZeroDivisionError
   \<and> maximizeLikelihood (GIF_init 1000 [] []) [] no_words no_nan [example_trace] [0, 0]
       example_buildXmatrix 1000 (1 / 1000000) = Inl ValueError"
  by (simp add: maximizeLikelihood_def example_precompute bind_err_def
        newton_loop.simps [of _ _ _ 1000] newton_step_def computeLikelihoodGradientHessian_def
        GIF_init_sel np_dot_def np_sub_def mat_vec_def dot_def inv_mat_def minor_mat_def Let_def
        del: precompute.simps)

end
